theory Spec2Isabelle
  imports Main "HOL-Library.Word"
begin

unbundle bit_operations_syntax

section \<open>Error side-channel: throwWasmError and handleError (interop.ts)\<close>

type_synonym byte = "8 word"

text \<open>
  What a call of \<open>func\<close> does as seen by \<open>handleError\<close>: it returns a number, or it throws
  a value. JavaScript can throw any value, also \<open>undefined\<close>: \<open>Throws None\<close>.
  Return codes are integers (the status of a WebAssembly export).
\<close>

datatype 'e call = Returns int | Throws "'e option"

text \<open>
  What \<open>handleError\<close> throws: a new \<open>Error(message)\<close>, or the caught value itself.
\<close>

datatype 'e thrown = Error string | Original 'e

text \<open>\<open>data.indexOf(0)\<close> of a typed array: the first index, or -1.\<close>

fun indexOf :: "'a list \<Rightarrow> 'a \<Rightarrow> int" where
  "indexOf [] x = -1"
| "indexOf (y # ys) x =
     (if y = x then 0 else (let r = indexOf ys x in if r = -1 then -1 else r + 1))"

text \<open>
  \<open>throwWasmError(e?)\<close>: \<open>data\<close> is the error view (\<open>MAX_ERROR_SIZE\<close> bytes at the error
  pointer), \<open>decode\<close> is \<open>TextDecoder.decode\<close>. The function always throws; the model returns
  what it throws.
\<close>

definition throwWasmError :: "(byte list \<Rightarrow> string) \<Rightarrow> byte list \<Rightarrow> 'e option \<Rightarrow> 'e thrown" where
  "throwWasmError decode data e =
     (let length = indexOf data 0;
          messageLength = (if length = -1 then int (List.length data) else length)
      in if messageLength > 0 then Error (decode (take (nat messageLength) data))
         else (case e of Some x \<Rightarrow> Original x | None \<Rightarrow> Error ''Unknown error''))"

text \<open>
  \<open>handleError(func)\<close>: \<open>call\<close> is what \<open>func()\<close> did, \<open>data\<close> the error view when it is read.
  \<open>Inl\<close> is what is thrown, \<open>Inr ()\<close> the return without an exception.
\<close>

definition handleError :: "(byte list \<Rightarrow> string) \<Rightarrow> 'e call \<Rightarrow> byte list \<Rightarrow> 'e thrown + unit" where
  "handleError decode func data =
     (case func of
        Throws e \<Rightarrow> Inl (throwWasmError decode data e)
      | Returns result \<Rightarrow>
          if result \<noteq> 0 then Inl (throwWasmError decode data None) else Inr ())"

text \<open>The message of the error buffer as the spec words it: the bytes before the first
  null terminator, or the entire buffer when there is none.\<close>

definition messageBytes :: "byte list \<Rightarrow> byte list" where
  "messageBytes data = takeWhile (\<lambda>b. b \<noteq> 0) data"

text \<open>A decoder for the concrete examples: one character per byte (what \<open>TextDecoder\<close>
  gives on ASCII bytes).\<close>

definition asciiDecode :: "byte list \<Rightarrow> string" where
  "asciiDecode bs = map (\<lambda>b. char_of (unat b)) bs"

section \<open>JavaScript numbers, ArrayBuffer and typed arrays (what conduit.ts runs on)\<close>

text \<open>
  The numbers of the conduit are integers (offsets, lengths, element values) or, after
  arithmetic with \<open>undefined\<close>, \<open>NaN\<close>. Sums and products of integers are exact below
  \<open>2^53\<close>, far above any buffer size. The bitwise operators work on 32 bits:
  \<open>&\<close> and \<open>~\<close> convert their operands with ToInt32 and give a signed 32-bit result,
  \<open>>>>\<close> gives an unsigned one.
\<close>

datatype number = NaN | Num int

fun num_add :: "number \<Rightarrow> number \<Rightarrow> number" where
  "num_add (Num a) (Num b) = Num (a + b)"
| "num_add _ _ = NaN"

fun num_mul :: "number \<Rightarrow> number \<Rightarrow> number" where
  "num_mul (Num a) (Num b) = Num (a * b)"
| "num_mul _ _ = NaN"

text \<open>\<open>a > b\<close>: false when an operand is \<open>NaN\<close>.\<close>

fun num_gt :: "number \<Rightarrow> number \<Rightarrow> bool" where
  "num_gt (Num a) (Num b) = (a > b)"
| "num_gt _ _ = False"

fun ToInt32 :: "number \<Rightarrow> 32 word" where
  "ToInt32 NaN = 0"
| "ToInt32 (Num i) = word_of_int i"

text \<open>\<open>x >>> n\<close>\<close>

definition ushr :: "number \<Rightarrow> nat \<Rightarrow> int" where
  "ushr x n = uint (drop_bit n (ToInt32 x))"

text \<open>
  An ArrayBuffer is a store from byte addresses to bytes with a length. Several typed
  arrays (the five views of a channel, the views of a reader and of a writer) alias the
  same buffer, so the buffer is passed explicitly and every view is a window on it.
\<close>

record arraybuffer =
  byteLength :: nat
  contents :: "nat \<Rightarrow> byte"

text \<open>\<open>new ArrayBuffer(n)\<close>: \<open>n\<close> zero bytes.\<close>

definition ArrayBuffer :: "nat \<Rightarrow> arraybuffer" where
  "ArrayBuffer n = \<lparr>byteLength = n, contents = (\<lambda>a. 0)\<rparr>"

text \<open>A typed array: where it starts in its buffer (in bytes) and its length (in elements).
  The element size is given by the element type.\<close>

record typedarray =
  ta_byteOffset :: nat
  ta_length :: nat

datatype elem = Uint8 | Uint32 | Int32 | Float32 | Float64

fun BYTES_PER_ELEMENT :: "elem \<Rightarrow> nat" where
  "BYTES_PER_ELEMENT Uint8 = 1"
| "BYTES_PER_ELEMENT Uint32 = 4"
| "BYTES_PER_ELEMENT Int32 = 4"
| "BYTES_PER_ELEMENT Float32 = 4"
| "BYTES_PER_ELEMENT Float64 = 8"

text \<open>
  The value of an element as JavaScript sees it is an integer: for the integer types the
  number itself, for \<open>Float32\<close> and \<open>Float64\<close> the IEEE-754 bit pattern of the number
  (rounding a double to a single, and comparing NaNs, are outside this model).
  \<open>toElement\<close> is the conversion of a store (ToUint8, ToUint32, ToInt32: modulo the
  width), \<open>fromElement\<close> the reading of the stored bits.
\<close>

fun toElement :: "elem \<Rightarrow> int \<Rightarrow> nat" where
  "toElement Uint8 v = nat (v mod 2 ^ 8)"
| "toElement Uint32 v = nat (v mod 2 ^ 32)"
| "toElement Int32 v = nat (v mod 2 ^ 32)"
| "toElement Float32 v = nat (v mod 2 ^ 32)"
| "toElement Float64 v = nat (v mod 2 ^ 64)"

fun fromElement :: "elem \<Rightarrow> nat \<Rightarrow> int" where
  "fromElement Int32 n = (if n < 2 ^ 31 then int n else int n - 2 ^ 32)"
| "fromElement e n = int n"

text \<open>Bytes of an element in the buffer, least significant first (the byte order of
  WebAssembly memory and of the platforms typed arrays run on).\<close>

fun store_le :: "nat \<Rightarrow> nat \<Rightarrow> nat \<Rightarrow> (nat \<Rightarrow> byte) \<Rightarrow> (nat \<Rightarrow> byte)" where
  "store_le 0 a v m = m"
| "store_le (Suc w) a v m = store_le w (Suc a) (v div 256) (m(a := of_nat (v mod 256)))"

fun load_le :: "nat \<Rightarrow> nat \<Rightarrow> (nat \<Rightarrow> byte) \<Rightarrow> nat" where
  "load_le 0 a m = 0"
| "load_le (Suc w) a m = unat (m a) + 256 * load_le w (Suc a) m"

fun store_elems :: "nat \<Rightarrow> nat \<Rightarrow> nat list \<Rightarrow> (nat \<Rightarrow> byte) \<Rightarrow> (nat \<Rightarrow> byte)" where
  "store_elems w a [] m = m"
| "store_elems w a (v # vs) m = store_elems w (a + w) vs (store_le w a v m)"

text \<open>\<open>ta[idx]\<close>: \<open>undefined\<close> (\<open>None\<close>) when \<open>idx\<close> is not an index of the array.\<close>

definition ta_get :: "elem \<Rightarrow> typedarray \<Rightarrow> number \<Rightarrow> arraybuffer \<Rightarrow> int option" where
  "ta_get e ta idx buf =
     (case idx of
        NaN \<Rightarrow> None
      | Num i \<Rightarrow>
          if 0 \<le> i \<and> nat i < ta_length ta
          then Some (fromElement e (load_le (BYTES_PER_ELEMENT e)
                 (ta_byteOffset ta + nat i * BYTES_PER_ELEMENT e) (contents buf)))
          else None)"

text \<open>\<open>ta[idx] = v\<close>: nothing happens when \<open>idx\<close> is not an index of the array.\<close>

definition ta_put :: "elem \<Rightarrow> typedarray \<Rightarrow> number \<Rightarrow> int \<Rightarrow> arraybuffer \<Rightarrow> arraybuffer" where
  "ta_put e ta idx v buf =
     (case idx of
        NaN \<Rightarrow> buf
      | Num i \<Rightarrow>
          if 0 \<le> i \<and> nat i < ta_length ta
          then buf\<lparr>contents := store_le (BYTES_PER_ELEMENT e)
                 (ta_byteOffset ta + nat i * BYTES_PER_ELEMENT e) (toElement e v) (contents buf)\<rparr>
          else buf)"

text \<open>ToIntegerOrInfinity of an index argument.\<close>

fun toInteger :: "number \<Rightarrow> int" where
  "toInteger NaN = 0"
| "toInteger (Num i) = i"

text \<open>\<open>ta.subarray(begin, end)\<close>: a new view on the same buffer; negative indices count
  from the end, both are clamped to the array.\<close>

definition subarray :: "elem \<Rightarrow> typedarray \<Rightarrow> number \<Rightarrow> number \<Rightarrow> typedarray" where
  "subarray e ta begin end =
     (let len = int (ta_length ta);
          rb = toInteger begin;
          beginIndex = (if rb < 0 then max (len + rb) 0 else min rb len);
          re = toInteger end;
          endIndex = (if re < 0 then max (len + re) 0 else min re len);
          newLength = max (endIndex - beginIndex) 0
      in \<lparr>ta_byteOffset = ta_byteOffset ta + nat beginIndex * BYTES_PER_ELEMENT e,
          ta_length = nat newLength\<rparr>)"

datatype channel_error =
    ReachedEndOfChannel  \<comment> \<open>\<open>Error('Reached end of channel')\<close>\<close>
  | AssertionFailed      \<comment> \<open>\<open>Error('Assertion failed')\<close>\<close>
  | RangeError           \<comment> \<open>thrown by a typed array constructor or by \<open>TypedArray.prototype.set\<close>\<close>

text \<open>\<open>ta.set(arr, start)\<close>: throws a RangeError unless the source fits at \<open>start\<close>.\<close>

definition ta_set :: "elem \<Rightarrow> typedarray \<Rightarrow> int list \<Rightarrow> number \<Rightarrow> arraybuffer \<Rightarrow> channel_error + arraybuffer" where
  "ta_set e ta arr start buf =
     (let targetOffset = toInteger start
      in if targetOffset < 0 \<or> int (length arr) + targetOffset > int (ta_length ta)
         then Inl RangeError
         else Inr (buf\<lparr>contents := store_elems (BYTES_PER_ELEMENT e)
                     (ta_byteOffset ta + nat targetOffset * BYTES_PER_ELEMENT e)
                     (map (toElement e) arr) (contents buf)\<rparr>))"



section \<open>The conduit: Channel, Writer and Reader (conduit.ts)\<close>

text \<open>\<open>alignUp(x, bytes)\<close> is \<open>(x + mask) & ~mask\<close> with \<open>mask = bytes - 1\<close>.\<close>

definition alignUp :: "number \<Rightarrow> int \<Rightarrow> int" where
  "alignUp x bytes =
     (let mask = bytes - 1
      in sint (ToInt32 (num_add x (Num mask)) AND NOT (ToInt32 (Num mask))))"

text \<open>
  A channel: its cursor (the private field \<open>offset\<close>) and the window of its five typed
  arrays on the buffer. \<open>storage e\<close> is \<open>storageUint8\<close>, \<open>storageUint32\<close>, \<open>storageInt32\<close>,
  \<open>storageFloat32\<close> or \<open>storageFloat64\<close>: all start at the same byte and have
  \<open>sizeInBytes / BYTES_PER_ELEMENT\<close> elements.
\<close>

record channel =
  offset :: number
  byteOffset :: nat
  sizeInBytes :: nat

definition storage :: "elem \<Rightarrow> channel \<Rightarrow> typedarray" where
  "storage e ch =
     \<lparr>ta_byteOffset = byteOffset ch, ta_length = sizeInBytes ch div BYTES_PER_ELEMENT e\<rparr>"

text \<open>
  The constructor. Its arguments are numbers: the three assertions come first (for
  integers, \<open>x % 8 === 0\<close> says that 8 divides \<open>x\<close>), then the typed arrays are built,
  and \<open>new Uint8Array(buffer, offset, length)\<close> throws a RangeError for a negative
  offset or length.
\<close>

definition Channel :: "arraybuffer \<Rightarrow> int \<Rightarrow> int \<Rightarrow> channel_error + channel" where
  "Channel buffer offs sz =
     (if offs mod 8 \<noteq> 0 then Inl AssertionFailed
      else if sz mod 8 \<noteq> 0 then Inl AssertionFailed
      else if \<not> offs + sz \<le> int (byteLength buffer) then Inl AssertionFailed
      else if offs < 0 \<or> sz < 0 then Inl RangeError
      else Inr \<lparr>offset = Num 0, byteOffset = nat offs, sizeInBytes = nat sz\<rparr>)"

definition reset :: "channel \<Rightarrow> channel" where
  "reset ch = ch\<lparr>offset := Num 0\<rparr>"

text \<open>The three offset functions return the index into the typed array of their width;
  \<open>offset32\<close> and \<open>offset64\<close> first move the cursor to the alignment boundary.\<close>

definition offset8 :: "channel \<Rightarrow> number \<times> channel" where
  "offset8 ch = (offset ch, ch)"

definition offset32 :: "channel \<Rightarrow> number \<times> channel" where
  "offset32 ch =
     (let ch' = ch\<lparr>offset := Num (alignUp (offset ch) 4)\<rparr>
      in (Num (ushr (offset ch') 2), ch'))"

definition offset64 :: "channel \<Rightarrow> number \<times> channel" where
  "offset64 ch =
     (let ch' = ch\<lparr>offset := Num (alignUp (offset ch) 8)\<rparr>
      in (Num (ushr (offset ch') 3), ch'))"

definition advance8 :: "number \<Rightarrow> channel \<Rightarrow> channel_error + channel" where
  "advance8 count ch =
     (let next = num_add (offset ch) count
      in if num_gt next (Num (int (ta_length (storage Uint8 ch))))
         then Inl ReachedEndOfChannel
         else Inr (ch\<lparr>offset := next\<rparr>))"

definition advance32 :: "number \<Rightarrow> channel \<Rightarrow> channel_error + channel" where
  "advance32 count ch = advance8 (num_mul count (Num 4)) ch"

definition advance64 :: "number \<Rightarrow> channel \<Rightarrow> channel_error + channel" where
  "advance64 count ch = advance8 (num_mul count (Num 8)) ch"

text \<open>
  The methods of Writer and Reader come in five copies, one per element type, that differ
  only in the typed array, the offset function and the advance function they use. The
  model writes each method once, with the element type as a parameter: \<open>copyArray Uint8\<close> is
  \<open>copyUint8Array\<close>, \<open>readArray Float64\<close> is \<open>readFloat64Array\<close>, and so on. The scalar
  copies, which the array methods call, are named below.
\<close>

fun offsetOf :: "elem \<Rightarrow> channel \<Rightarrow> number \<times> channel" where
  "offsetOf Uint8 ch = offset8 ch"
| "offsetOf Uint32 ch = offset32 ch"
| "offsetOf Int32 ch = offset32 ch"
| "offsetOf Float32 ch = offset32 ch"
| "offsetOf Float64 ch = offset64 ch"

fun advanceOf :: "elem \<Rightarrow> number \<Rightarrow> channel \<Rightarrow> channel_error + channel" where
  "advanceOf Uint8 count ch = advance8 count ch"
| "advanceOf Uint32 count ch = advance32 count ch"
| "advanceOf Int32 count ch = advance32 count ch"
| "advanceOf Float32 count ch = advance32 count ch"
| "advanceOf Float64 count ch = advance64 count ch"

text \<open>
  A method that throws leaves the channel as it was when the exception was raised, so
  every method returns the channel (and a writing method the buffer) next to its result.
\<close>

subsection \<open>Writer\<close>

text \<open>\<open>writeUint8\<close>, \<open>writeUint32\<close>, \<open>writeInt32\<close>, \<open>writeFloat32\<close>, \<open>writeFloat64\<close>\<close>

definition writeScalar :: "elem \<Rightarrow> int \<Rightarrow> channel \<Rightarrow> arraybuffer \<Rightarrow> (channel_error + unit) \<times> channel \<times> arraybuffer" where
  "writeScalar e v ch buf =
     (let (offs, ch1) = offsetOf e ch
      in case advanceOf e (Num 1) ch1 of
           Inl err \<Rightarrow> (Inl err, ch1, buf)
         | Inr ch2 \<Rightarrow> (Inr (), ch2, ta_put e (storage e ch2) offs v buf))"

definition writeUint8 :: "int \<Rightarrow> channel \<Rightarrow> arraybuffer \<Rightarrow> (channel_error + unit) \<times> channel \<times> arraybuffer" where
  "writeUint8 = writeScalar Uint8"

definition writeUint32 :: "int \<Rightarrow> channel \<Rightarrow> arraybuffer \<Rightarrow> (channel_error + unit) \<times> channel \<times> arraybuffer" where
  "writeUint32 = writeScalar Uint32"

definition writeInt32 :: "int \<Rightarrow> channel \<Rightarrow> arraybuffer \<Rightarrow> (channel_error + unit) \<times> channel \<times> arraybuffer" where
  "writeInt32 = writeScalar Int32"

definition writeFloat32 :: "int \<Rightarrow> channel \<Rightarrow> arraybuffer \<Rightarrow> (channel_error + unit) \<times> channel \<times> arraybuffer" where
  "writeFloat32 = writeScalar Float32"

definition writeFloat64 :: "int \<Rightarrow> channel \<Rightarrow> arraybuffer \<Rightarrow> (channel_error + unit) \<times> channel \<times> arraybuffer" where
  "writeFloat64 = writeScalar Float64"

text \<open>\<open>initUint8\<close> ... \<open>initFloat64\<close>: reserve one element and return the closure that
  stores into it later. The reservation itself does not touch the buffer.\<close>

definition initScalar :: "elem \<Rightarrow> channel \<Rightarrow> (channel_error + (int \<Rightarrow> arraybuffer \<Rightarrow> arraybuffer)) \<times> channel" where
  "initScalar e ch =
     (let (offs, ch1) = offsetOf e ch
      in case advanceOf e (Num 1) ch1 of
           Inl err \<Rightarrow> (Inl err, ch1)
         | Inr ch2 \<Rightarrow> (Inr (\<lambda>v buf. ta_put e (storage e ch2) offs v buf), ch2))"

text \<open>\<open>initUint8Elements(length)\<close> ... \<open>initFloat64Elements(length)\<close>: reserve \<open>length\<close>
  elements and return the view on them.\<close>

definition initElements :: "elem \<Rightarrow> number \<Rightarrow> channel \<Rightarrow> (channel_error + typedarray) \<times> channel" where
  "initElements e len ch =
     (let (start, ch1) = offsetOf e ch
      in case advanceOf e len ch1 of
           Inl err \<Rightarrow> (Inl err, ch1)
         | Inr ch2 \<Rightarrow> (Inr (subarray e (storage e ch2) start (num_add start len)), ch2))"

text \<open>\<open>initUint8Array(length)\<close> ... \<open>initFloat64Array(length)\<close>: the length prefix, then the
  reservation.\<close>

definition initArray :: "elem \<Rightarrow> int \<Rightarrow> channel \<Rightarrow> arraybuffer \<Rightarrow> (channel_error + typedarray) \<times> channel \<times> arraybuffer" where
  "initArray e len ch buf =
     (case writeUint32 len ch buf of
        (Inl err, ch1, buf1) \<Rightarrow> (Inl err, ch1, buf1)
      | (Inr u, ch1, buf1) \<Rightarrow>
          (case initElements e (Num len) ch1 of (r, ch2) \<Rightarrow> (r, ch2, buf1)))"

text \<open>\<open>copyUint8Elements(arr)\<close> ... \<open>copyFloat64Elements(arr)\<close>\<close>

definition copyElements :: "elem \<Rightarrow> int list \<Rightarrow> channel \<Rightarrow> arraybuffer \<Rightarrow> (channel_error + unit) \<times> channel \<times> arraybuffer" where
  "copyElements e arr ch buf =
     (let (start, ch1) = offsetOf e ch
      in case advanceOf e (Num (int (length arr))) ch1 of
           Inl err \<Rightarrow> (Inl err, ch1, buf)
         | Inr ch2 \<Rightarrow>
             (case ta_set e (storage e ch2) arr start buf of
                Inl err \<Rightarrow> (Inl err, ch2, buf)
              | Inr buf' \<Rightarrow> (Inr (), ch2, buf')))"

text \<open>\<open>copyUint8Array(arr)\<close> ... \<open>copyFloat64Array(arr)\<close>: the length prefix, then the copy.\<close>

definition copyArray :: "elem \<Rightarrow> int list \<Rightarrow> channel \<Rightarrow> arraybuffer \<Rightarrow> (channel_error + unit) \<times> channel \<times> arraybuffer" where
  "copyArray e arr ch buf =
     (case writeUint32 (int (length arr)) ch buf of
        (Inl err, ch1, buf1) \<Rightarrow> (Inl err, ch1, buf1)
      | (Inr u, ch1, buf1) \<Rightarrow> copyElements e arr ch1 buf1)"

subsection \<open>Reader\<close>

text \<open>\<open>readUint8\<close>, \<open>readUint32\<close>, \<open>readInt32\<close>, \<open>readFloat32\<close>, \<open>readFloat64\<close>: the result is
  \<open>None\<close> when the typed array gives \<open>undefined\<close>.\<close>

definition readScalar :: "elem \<Rightarrow> channel \<Rightarrow> arraybuffer \<Rightarrow> (channel_error + int option) \<times> channel" where
  "readScalar e ch buf =
     (let (offs, ch1) = offsetOf e ch
      in case advanceOf e (Num 1) ch1 of
           Inl err \<Rightarrow> (Inl err, ch1)
         | Inr ch2 \<Rightarrow> (Inr (ta_get e (storage e ch2) offs buf), ch2))"

definition readUint8 :: "channel \<Rightarrow> arraybuffer \<Rightarrow> (channel_error + int option) \<times> channel" where
  "readUint8 = readScalar Uint8"

definition readUint32 :: "channel \<Rightarrow> arraybuffer \<Rightarrow> (channel_error + int option) \<times> channel" where
  "readUint32 = readScalar Uint32"

definition readInt32 :: "channel \<Rightarrow> arraybuffer \<Rightarrow> (channel_error + int option) \<times> channel" where
  "readInt32 = readScalar Int32"

definition readFloat32 :: "channel \<Rightarrow> arraybuffer \<Rightarrow> (channel_error + int option) \<times> channel" where
  "readFloat32 = readScalar Float32"

definition readFloat64 :: "channel \<Rightarrow> arraybuffer \<Rightarrow> (channel_error + int option) \<times> channel" where
  "readFloat64 = readScalar Float64"

text \<open>\<open>readUint8Elements(length)\<close> ... \<open>readFloat64Elements(length)\<close>: a view, no copy.\<close>

definition readElements :: "elem \<Rightarrow> number \<Rightarrow> channel \<Rightarrow> (channel_error + typedarray) \<times> channel" where
  "readElements e len ch =
     (let (start, ch1) = offsetOf e ch
      in case advanceOf e len ch1 of
           Inl err \<Rightarrow> (Inl err, ch1)
         | Inr ch2 \<Rightarrow> (Inr (subarray e (storage e ch2) start (num_add start len)), ch2))"

text \<open>\<open>undefined\<close> in arithmetic is \<open>NaN\<close>.\<close>

fun toNumber :: "int option \<Rightarrow> number" where
  "toNumber None = NaN"
| "toNumber (Some i) = Num i"

text \<open>\<open>readUint8Array()\<close> ... \<open>readFloat64Array()\<close>: the length prefix, then the view.\<close>

definition readArray :: "elem \<Rightarrow> channel \<Rightarrow> arraybuffer \<Rightarrow> (channel_error + typedarray) \<times> channel" where
  "readArray e ch buf =
     (case readUint32 ch buf of
        (Inl err, ch1) \<Rightarrow> (Inl err, ch1)
      | (Inr len, ch1) \<Rightarrow> readElements e (toNumber len) ch1)"

section \<open>Instance bootstrap (interop.ts, createInstance)\<close>

subsection \<open>The import set\<close>

text \<open>
  An import object maps namespace names to namespaces, a namespace maps names to values.
  \<open>imports\<close> is optional (\<open>None\<close>: not given). The code builds
  \<open>env = {...(baseImports.env ?? {}), memory, hostLog}\<close> and
  \<open>finalImports = {...baseImports, env}\<close>: in an object literal a later key replaces an
  earlier one.
\<close>

type_synonym 'v namespace = "string \<rightharpoonup> 'v"

definition finalImports :: "(string \<rightharpoonup> 'v namespace) option \<Rightarrow> 'v \<Rightarrow> 'v \<Rightarrow> (string \<rightharpoonup> 'v namespace)" where
  "finalImports imports memory hostLog =
     (let baseImports = (case imports of None \<Rightarrow> Map.empty | Some i \<Rightarrow> i);
          env = (case baseImports ''env'' of None \<Rightarrow> Map.empty | Some ns \<Rightarrow> ns)
                  (''memory'' \<mapsto> memory, ''hostLog'' \<mapsto> hostLog)
      in baseImports(''env'' \<mapsto> env))"

subsection \<open>The memory and its growth\<close>

text \<open>
  A \<open>WebAssembly.Memory\<close>: its current ArrayBuffer and the identity of that buffer.
  \<open>grow\<close> detaches the buffer and makes a new one, \<open>delta\<close> pages of 64 KiB longer; the
  model numbers the buffers of a memory. (The engine's refusal to grow beyond its limit
  is outside the model.)
\<close>

record memory =
  buffer_id :: nat
  buffer :: arraybuffer

definition wasm_page_size :: nat where
  "wasm_page_size = 65536"

text \<open>\<open>new WebAssembly.Memory({ initial })\<close>\<close>

definition Memory :: "nat \<Rightarrow> memory" where
  "Memory initial = \<lparr>buffer_id = 0, buffer = ArrayBuffer (initial * wasm_page_size)\<rparr>"





subsection \<open>Cached views\<close>

text \<open>
  \<open>createView(createFunc)\<close> returns a closure over two variables, \<open>buffer\<close> and
  \<open>instance\<close>, both \<open>undefined\<close> at first. The model keeps them as the state of the
  closure. JavaScript objects have an identity: the model counts the calls of
  \<open>createFunc\<close> and gives the object built by the \<open>n\<close>-th call the identity \<open>n\<close>
  (every \<open>createFunc\<close> of \<open>createInstance\<close> builds a new object, with \<open>new\<close>).
  \<open>createFunc\<close> may throw; then \<open>buffer\<close> has been assigned and \<open>instance\<close> has not.
\<close>

record 'v view_state =
  vs_buffer :: "nat option"
  vs_instance :: "(nat \<times> 'v) option"
  vs_builds :: nat

definition createView :: "'v view_state" where
  "createView = \<lparr>vs_buffer = None, vs_instance = None, vs_builds = 0\<rparr>"

definition rebuild :: "(arraybuffer \<Rightarrow> channel_error + 'v) \<Rightarrow> memory \<Rightarrow> 'v view_state \<Rightarrow> (channel_error + nat \<times> 'v) \<times> 'v view_state" where
  "rebuild createFunc mem vs =
     (let vs1 = vs\<lparr>vs_buffer := Some (buffer_id mem)\<rparr>
      in case createFunc (buffer mem) of
           Inl err \<Rightarrow> (Inl err, vs1)
         | Inr v \<Rightarrow> (Inr (vs_builds vs1, v),
                     vs1\<lparr>vs_instance := Some (vs_builds vs1, v), vs_builds := Suc (vs_builds vs1)\<rparr>))"

text \<open>A call of the closure:
  \<open>if (instance === undefined || memory.buffer !== buffer) {...}; return instance\<close>\<close>

definition getView :: "(arraybuffer \<Rightarrow> channel_error + 'v) \<Rightarrow> memory \<Rightarrow> 'v view_state \<Rightarrow> (channel_error + nat \<times> 'v) \<times> 'v view_state" where
  "getView createFunc mem vs =
     (case vs_instance vs of
        None \<Rightarrow> rebuild createFunc mem vs
      | Some obj \<Rightarrow>
          if vs_buffer vs \<noteq> Some (buffer_id mem) then rebuild createFunc mem vs
          else (Inr obj, vs))"

subsection \<open>The instance and its channel accessors\<close>

text \<open>
  What \<open>createInstance\<close> keeps for the channel accessors: the memory, the pointers and
  sizes, and the two cached channels (\<open>getInputChannel\<close>, a Writer, and
  \<open>getOutputChannel\<close>, a Reader). The cached channel objects are mutable: \<open>reset\<close> and
  every write or read through a reference changes the cursor of the cached object, so
  the cursor lives in the cache.
\<close>

record inst =
  memory :: memory
  inputPtr :: int
  inputChannelSize :: int
  outputPtr :: int
  outputChannelSize :: int
  inputChannel :: "channel view_state"
  outputChannel :: "channel view_state"




text \<open>\<open>getInput()\<close>: the cached Writer, after \<open>reset()\<close>. The result is the identity of
  the Writer object; its state is the cached one.\<close>

definition getInput :: "inst \<Rightarrow> (channel_error + nat) \<times> inst" where
  "getInput i =
     (case getView (\<lambda>buf. Channel buf (inputPtr i) (inputChannelSize i)) (memory i) (inputChannel i) of
        (Inl err, vs) \<Rightarrow> (Inl err, i\<lparr>inputChannel := vs\<rparr>)
      | (Inr (ident, input), vs) \<Rightarrow>
          (Inr ident, i\<lparr>inputChannel := vs\<lparr>vs_instance := Some (ident, reset input)\<rparr>\<rparr>))"

text \<open>\<open>getOutput()\<close>\<close>

definition getOutput :: "inst \<Rightarrow> (channel_error + nat) \<times> inst" where
  "getOutput i =
     (case getView (\<lambda>buf. Channel buf (outputPtr i) (outputChannelSize i)) (memory i) (outputChannel i) of
        (Inl err, vs) \<Rightarrow> (Inl err, i\<lparr>outputChannel := vs\<rparr>)
      | (Inr (ident, output), vs) \<Rightarrow>
          (Inr ident, i\<lparr>outputChannel := vs\<lparr>vs_instance := Some (ident, reset output)\<rparr>\<rparr>))"

text \<open>
  A call of a Writer method on the input channel through the reference that \<open>getInput\<close>
  gave (before the memory grows again, so the Writer is the cached one and its buffer is
  the memory's): the method runs on the cached cursor and the memory's buffer.
\<close>

definition onInput :: "(channel \<Rightarrow> arraybuffer \<Rightarrow> 'r \<times> channel \<times> arraybuffer) \<Rightarrow> inst \<Rightarrow> 'r option \<times> inst" where
  "onInput method i =
     (case vs_instance (inputChannel i) of
        None \<Rightarrow> (None, i)
      | Some (ident, input) \<Rightarrow>
          (case method input (buffer (memory i)) of
             (r, input', buf') \<Rightarrow>
               (Some r, i\<lparr>memory := (memory i)\<lparr>buffer := buf'\<rparr>,
                          inputChannel := (inputChannel i)\<lparr>vs_instance := Some (ident, input')\<rparr>\<rparr>)))"

text \<open>\<open>getBytes()[a]\<close>: a byte of the memory.\<close>

definition getByte :: "inst \<Rightarrow> nat \<Rightarrow> byte" where
  "getByte i a = contents (buffer (memory i)) a"

section \<open>Notions used to state the properties\<close>

text \<open>The next multiple of \<open>a\<close> at or above \<open>c\<close>.\<close>

definition roundUp :: "int \<Rightarrow> int \<Rightarrow> int" where
  "roundUp c a = ((c + (a - 1)) div a) * a"

text \<open>The cursor of an operation on elements of type \<open>e\<close> after its alignment step, as the
  alignment rule words it: the raw cursor for one-byte elements, the next multiple of 4 or
  8 for the wider ones.\<close>

definition aligned :: "elem \<Rightarrow> int \<Rightarrow> int" where
  "aligned e c = roundUp c (int (BYTES_PER_ELEMENT e))"

text \<open>
  A channel as the constructor builds it and the methods keep it: the window starts and
  ends on a multiple of 8 and the cursor is an integer between 0 and the capacity. The
  capacity is below \<open>2^31\<close>: channel sizes cross the boundary as \<open>i32\<close>
  (\<open>allocateInputChannel(sizeInBytes: i32)\<close>), and \<open>alignUp\<close> computes on 32 bits.
\<close>

definition channel_ok :: "channel \<Rightarrow> bool" where
  "channel_ok ch \<longleftrightarrow>
     byteOffset ch mod 8 = 0 \<and> sizeInBytes ch mod 8 = 0 \<and> sizeInBytes ch < 2 ^ 31
     \<and> (case offset ch of NaN \<Rightarrow> False | Num c \<Rightarrow> 0 \<le> c \<and> c \<le> int (sizeInBytes ch))"


text \<open>The binding of \<open>key\<close> in the namespace \<open>ns\<close> of an import object.\<close>

definition binding :: "(string \<rightharpoonup> 'v namespace) \<Rightarrow> string \<Rightarrow> string \<Rightarrow> 'v option" where
  "binding imports ns key = (case imports ns of None \<Rightarrow> None | Some m \<Rightarrow> m key)"

text \<open>The objects a view closure has built have identities below its count of builds.\<close>

definition view_ok :: "'v view_state \<Rightarrow> bool" where
  "view_ok vs = (case vs_instance vs of None \<Rightarrow> True | Some (n, v) \<Rightarrow> n < vs_builds vs)"

text \<open>
  An instance whose channels can be built: pointers and sizes are non-negative multiples
  of 8 (the module allocates \<open>u64\<close> storage; the constructor asserts it), sizes are
  below \<open>2^31\<close> (they are passed to the module as \<open>i32\<close>), the regions lie in the memory
  (the growth step of the bootstrap sees to it), and a cached channel is a channel on
  its region.
\<close>

definition region_ok :: "int \<Rightarrow> int \<Rightarrow> memory \<Rightarrow> channel view_state \<Rightarrow> bool" where
  "region_ok ptr sz mem vs \<longleftrightarrow>
     ptr mod 8 = 0 \<and> sz mod 8 = 0 \<and> 0 \<le> ptr \<and> 0 \<le> sz \<and> sz < 2 ^ 31
     \<and> ptr + sz \<le> int (byteLength (buffer mem))
     \<and> view_ok vs
     \<and> (case vs_instance vs of
          None \<Rightarrow> True
        | Some (n, ch) \<Rightarrow> byteOffset ch = nat ptr \<and> sizeInBytes ch = nat sz \<and> channel_ok ch)"

definition inst_ok :: "inst \<Rightarrow> bool" where
  "inst_ok i \<longleftrightarrow>
     region_ok (inputPtr i) (inputChannelSize i) (memory i) (inputChannel i)
     \<and> region_ok (outputPtr i) (outputChannelSize i) (memory i) (outputChannel i)"

text \<open>The cursor of the cached input and output channel.\<close>

definition inputCursor :: "inst \<Rightarrow> number option" where
  "inputCursor i = (case vs_instance (inputChannel i) of None \<Rightarrow> None | Some (n, ch) \<Rightarrow> Some (offset ch))"

definition outputCursor :: "inst \<Rightarrow> number option" where
  "outputCursor i = (case vs_instance (outputChannel i) of None \<Rightarrow> None | Some (n, ch) \<Rightarrow> Some (offset ch))"


section \<open>The operations of a channel, as a caller sees them\<close>

text \<open>
  The methods of Writer and Reader, one constructor per method family (the element type
  picks the copy). Lengths are array lengths: non-negative integers.
\<close>

datatype operation =
    WriteScalar elem int          \<comment> \<open>\<open>writeUint8(v)\<close> ... \<open>writeFloat64(v)\<close>\<close>
  | InitScalar elem               \<comment> \<open>\<open>initUint8()\<close> ... \<open>initFloat64()\<close>\<close>
  | InitElements elem nat         \<comment> \<open>\<open>initUint8Elements(n)\<close> ...\<close>
  | InitArray elem nat            \<comment> \<open>\<open>initUint8Array(n)\<close> ...\<close>
  | CopyElements elem "int list"  \<comment> \<open>\<open>copyUint8Elements(arr)\<close> ...\<close>
  | CopyArray elem "int list"     \<comment> \<open>\<open>copyUint8Array(arr)\<close> ...\<close>
  | ReadScalar elem               \<comment> \<open>\<open>readUint8()\<close> ...\<close>
  | ReadElements elem nat         \<comment> \<open>\<open>readUint8Elements(n)\<close> ...\<close>
  | ReadArray elem                \<comment> \<open>\<open>readUint8Array()\<close> ...\<close>

fun raised :: "channel_error + 'a \<Rightarrow> channel_error option" where
  "raised (Inl err) = Some err"
| "raised (Inr r) = None"

text \<open>One call: the exception it raised (if any), and the channel and the buffer after it.\<close>

fun perform :: "operation \<Rightarrow> channel \<Rightarrow> arraybuffer \<Rightarrow> channel_error option \<times> channel \<times> arraybuffer" where
  "perform (WriteScalar e v) ch buf =
     (case writeScalar e v ch buf of (r, ch', buf') \<Rightarrow> (raised r, ch', buf'))"
| "perform (InitScalar e) ch buf =
     (case initScalar e ch of (r, ch') \<Rightarrow> (raised r, ch', buf))"
| "perform (InitElements e n) ch buf =
     (case initElements e (Num (int n)) ch of (r, ch') \<Rightarrow> (raised r, ch', buf))"
| "perform (InitArray e n) ch buf =
     (case initArray e (int n) ch buf of (r, ch', buf') \<Rightarrow> (raised r, ch', buf'))"
| "perform (CopyElements e arr) ch buf =
     (case copyElements e arr ch buf of (r, ch', buf') \<Rightarrow> (raised r, ch', buf'))"
| "perform (CopyArray e arr) ch buf =
     (case copyArray e arr ch buf of (r, ch', buf') \<Rightarrow> (raised r, ch', buf'))"
| "perform (ReadScalar e) ch buf =
     (case readScalar e ch buf of (r, ch') \<Rightarrow> (raised r, ch', buf))"
| "perform (ReadElements e n) ch buf =
     (case readElements e (Num (int n)) ch of (r, ch') \<Rightarrow> (raised r, ch', buf))"
| "perform (ReadArray e) ch buf =
     (case readArray e ch buf of (r, ch') \<Rightarrow> (raised r, ch', buf))"

text \<open>A sequence of calls on one channel; a caller that catches an exception goes on
  with the channel as the failed call left it.\<close>

fun run :: "operation list \<Rightarrow> channel \<times> arraybuffer \<Rightarrow> channel \<times> arraybuffer" where
  "run [] s = s"
| "run (x # xs) (ch, buf) = run xs (snd (perform x ch buf))"

text \<open>
  The aligned cursor plus the total width of an operation at cursor \<open>c\<close>, in the words of
  the spec: a scalar takes its width at its alignment, a run of elements theirs, and an
  array a 4-byte length prefix at the 4-byte alignment followed by its elements at their
  alignment. An array read takes the length from the prefix in the buffer.
\<close>

fun extent :: "operation \<Rightarrow> channel \<Rightarrow> arraybuffer \<Rightarrow> int \<Rightarrow> int" where
  "extent (WriteScalar e v) ch buf c = aligned e c + int (BYTES_PER_ELEMENT e)"
| "extent (InitScalar e) ch buf c = aligned e c + int (BYTES_PER_ELEMENT e)"
| "extent (ReadScalar e) ch buf c = aligned e c + int (BYTES_PER_ELEMENT e)"
| "extent (InitElements e n) ch buf c = aligned e c + int n * int (BYTES_PER_ELEMENT e)"
| "extent (ReadElements e n) ch buf c = aligned e c + int n * int (BYTES_PER_ELEMENT e)"
| "extent (CopyElements e arr) ch buf c =
     aligned e c + int (length arr) * int (BYTES_PER_ELEMENT e)"
| "extent (InitArray e n) ch buf c =
     aligned e (aligned Uint32 c + 4) + int n * int (BYTES_PER_ELEMENT e)"
| "extent (CopyArray e arr) ch buf c =
     aligned e (aligned Uint32 c + 4) + int (length arr) * int (BYTES_PER_ELEMENT e)"
| "extent (ReadArray e) ch buf c =
     (let p = aligned Uint32 c
      in if p + 4 > int (sizeInBytes ch) then p + 4
         else aligned e (p + 4)
              + int (load_le 4 (byteOffset ch + nat p) (contents buf)) * int (BYTES_PER_ELEMENT e))"

text \<open>The methods that make one reservation or one store; the array methods are a length
  prefix followed by one of these.\<close>

fun primitive :: "operation \<Rightarrow> bool" where
  "primitive (InitArray e n) = False"
| "primitive (CopyArray e arr) = False"
| "primitive (ReadArray e) = False"
| "primitive x = True"

text \<open>The byte addresses of a channel's window on its buffer.\<close>

definition region :: "channel \<Rightarrow> nat set" where
  "region ch = {byteOffset ch ..< byteOffset ch + sizeInBytes ch}"

text \<open>The element type an operation works on.\<close>

fun elemOf :: "operation \<Rightarrow> elem" where
  "elemOf (WriteScalar e v) = e"
| "elemOf (InitScalar e) = e"
| "elemOf (InitElements e n) = e"
| "elemOf (InitArray e n) = e"
| "elemOf (CopyElements e arr) = e"
| "elemOf (CopyArray e arr) = e"
| "elemOf (ReadScalar e) = e"
| "elemOf (ReadElements e n) = e"
| "elemOf (ReadArray e) = e"

section \<open>Properties of the error side-channel\<close>

lemma indexOf_ge: "indexOf xs x = -1 \<or> 0 \<le> indexOf xs x"
  by (induction xs) (auto simp: Let_def)

lemma indexOf_takeWhile:
  "take (nat (if indexOf xs x = -1 then int (length xs) else indexOf xs x)) xs
     = takeWhile (\<lambda>b. b \<noteq> x) xs"
proof (induction xs)
  case Nil
  then show ?case by simp
next
  case (Cons y ys)
  have ge: "indexOf ys x = -1 \<or> 0 \<le> indexOf ys x" by (rule indexOf_ge)
  show ?case
  proof (cases "y = x")
    case True
    then show ?thesis by simp
  next
    case False
    with Cons ge show ?thesis
      by (auto simp: Let_def nat_add_distrib split: if_splits)
  qed
qed

lemma messageLength_pos:
  "(0 < (if indexOf xs x = -1 then int (length xs) else indexOf xs x))
     = (takeWhile (\<lambda>b. b \<noteq> x) xs \<noteq> [])"
proof (cases xs)
  case Nil
  then show ?thesis by simp
next
  case (Cons y ys)
  have ge: "indexOf ys x = -1 \<or> 0 \<le> indexOf ys x" by (rule indexOf_ge)
  with Cons show ?thesis by (auto simp: Let_def)
qed

lemma throwWasmError_message:
  "throwWasmError decode data e =
     (if messageBytes data \<noteq> [] then Error (decode (messageBytes data))
      else (case e of Some x \<Rightarrow> Original x | None \<Rightarrow> Error ''Unknown error''))"
  unfolding throwWasmError_def messageBytes_def Let_def
  by (simp only: indexOf_takeWhile messageLength_pos)


lemma asciiDecode_examples:
  "asciiDecode [98, 97, 100] = ''bad''" "asciiDecode [98, 98, 98, 98] = ''bbbb''"
  by code_simp+

text \<open>
  C1 (as stated, fails): the claim puts the error buffer first: a non-empty message in the
  buffer is raised whatever the call did. The code asks for the buffer only after the call
  threw or returned a non-zero code. With return code 0 and the message "bad" in the
  buffer, \<open>handleError\<close> returns without raising.
\<close>

theorem handleError_zero_code_ignores_buffer:
  "messageBytes [98, 97, 100, 0] = [98, 97, 100]
   \<and> handleError asciiDecode (Returns 0 :: unit call) [98, 97, 100, 0] = Inr ()"
  by (simp add: messageBytes_def handleError_def)

text \<open>
  C1 (amended): every combination of call outcome and buffer contents has exactly one
  outcome. A call that returns 0 is a success whatever the buffer holds. A call that
  returns a non-zero code raises the buffer's message when it is non-empty, otherwise the
  generic "Unknown error". A call that throws raises the buffer's message when it is
  non-empty (the caught exception is dropped), otherwise the caught exception itself
  (the generic "Unknown error" when the thrown value is \<open>undefined\<close>).
\<close>

theorem handleError_precedence:
  "handleError decode func data =
     (case func of
        Returns result \<Rightarrow>
          if result = 0 then Inr ()
          else if messageBytes data \<noteq> [] then Inl (Error (decode (messageBytes data)))
          else Inl (Error ''Unknown error'')
      | Throws e \<Rightarrow>
          if messageBytes data \<noteq> [] then Inl (Error (decode (messageBytes data)))
          else (case e of Some x \<Rightarrow> Inl (Original x) | None \<Rightarrow> Inl (Error ''Unknown error'')))"
  by (simp add: handleError_def throwWasmError_message split: call.splits option.splits)

theorem handleError_precedence_witness:
  "handleError asciiDecode (Returns 0 :: string call) [0, 0, 0, 0] = Inr ()
   \<and> handleError asciiDecode (Returns 1 :: string call) [98, 97, 100, 0] = Inl (Error ''bad'')
   \<and> handleError asciiDecode (Throws (Some ''boom'')) [0, 0, 0, 0] = Inl (Original ''boom'')
   \<and> handleError asciiDecode (Returns 1 :: string call) [0, 0, 0, 0] = Inl (Error ''Unknown error'')
   \<and> handleError asciiDecode (Throws (Some ''boom'')) [98, 98, 98, 98] = Inl (Error ''bbbb'')"
  using handleError_precedence [of asciiDecode "Returns 0 :: string call" "[0, 0, 0, 0]"]
    handleError_precedence [of asciiDecode "Returns 1 :: string call" "[98, 97, 100, 0]"]
    handleError_precedence [of asciiDecode "Throws (Some ''boom'')" "[0, 0, 0, 0]"]
    handleError_precedence [of asciiDecode "Returns 1 :: string call" "[0, 0, 0, 0]"]
    handleError_precedence [of asciiDecode "Throws (Some ''boom'')" "[98, 98, 98, 98]"]
  by (simp add: messageBytes_def asciiDecode_examples)

section \<open>Properties of the conduit\<close>

subsection \<open>The arithmetic of alignUp\<close>

lemma int_and_not_mask: "(k :: int) AND NOT (mask n) = k - k mod 2 ^ n"
proof -
  have "NOT k AND take_bit n k = 0"
    by (simp add: bit_eq_iff bit_simps)
  then have "k - take_bit n k = k AND NOT (take_bit n k)"
    by (rule disjunctive_diff_eq_and_not)
  also have "\<dots> = k AND NOT (mask n)"
    by (auto simp: bit_eq_iff bit_simps)
  finally show ?thesis by (simp add: take_bit_eq_mod)
qed

lemma sint_and_not_mask:
  "sint ((word_of_int k :: 32 word) AND NOT (word_of_int (mask n))) = signed_take_bit 31 (k - k mod 2 ^ n)"
proof -
  have "(word_of_int k :: 32 word) AND NOT (word_of_int (mask n)) = word_of_int (k AND NOT (mask n))"
    by (simp add: of_int_and_eq of_int_not_eq)
  moreover have "sint (word_of_int (k AND NOT (mask n)) :: 32 word) = signed_take_bit 31 (k AND NOT (mask n))"
    by (simp add: signed_of_int)
  ultimately show ?thesis
    by (simp only: int_and_not_mask)
qed

lemma alignUp_eq:
  assumes "n = 2 \<or> n = 3"
  shows "alignUp (Num c) (2 ^ n) = signed_take_bit 31 ((c + (2 ^ n - 1)) - (c + (2 ^ n - 1)) mod 2 ^ n)"
  using assms sint_and_not_mask[of "c + (2 ^ n - 1)" n]
  by (auto simp: alignUp_def Let_def mask_eq_exp_minus_1)

lemma alignUp4:
  assumes "0 \<le> c" "c + 3 < 2 ^ 31"
  shows "alignUp (Num c) 4 = roundUp c 4"
proof -
  have "alignUp (Num c) 4 = signed_take_bit 31 ((c + 3) - (c + 3) mod 4)"
    using alignUp_eq[of 2 c] by simp
  also have "\<dots> = (c + 3) - (c + 3) mod 4"
    using assms by (intro signed_take_bit_int_eq_self) auto
  finally show ?thesis by (simp add: roundUp_def minus_mod_eq_div_mult)
qed

lemma alignUp8:
  assumes "0 \<le> c" "c + 7 < 2 ^ 31"
  shows "alignUp (Num c) 8 = roundUp c 8"
proof -
  have "alignUp (Num c) 8 = signed_take_bit 31 ((c + 7) - (c + 7) mod 8)"
    using alignUp_eq[of 3 c] by simp
  also have "\<dots> = (c + 7) - (c + 7) mod 8"
    using assms by (intro signed_take_bit_int_eq_self) auto
  finally show ?thesis by (simp add: roundUp_def minus_mod_eq_div_mult)
qed

lemma ushr_eq:
  assumes "0 \<le> a" "a < 2 ^ 32"
  shows "ushr (Num a) n = a div 2 ^ n"
proof -
  have u: "uint (word_of_int a :: 32 word) = a"
    using assms by (simp add: uint_word_of_int)
  have "uint (drop_bit n (word_of_int a :: 32 word)) = drop_bit n (take_bit 32 (uint (word_of_int a :: 32 word)))"
    using unsigned_drop_bit_eq[of n "word_of_int a :: 32 word", where 'a=int] by simp
  also have "\<dots> = a div 2 ^ n"
    using assms by (simp only: u) (simp add: take_bit_int_eq_self drop_bit_eq_div)
  finally show ?thesis by (simp add: ushr_def)
qed

subsection \<open>Offsets and advances on a well-formed channel\<close>


lemma aligned_Uint8 [simp]: "aligned Uint8 c = c"
  by (simp add: aligned_def roundUp_def)

lemma aligned_bounds:
  "c \<le> aligned e c" "aligned e c < c + int (BYTES_PER_ELEMENT e)"
  "aligned e c mod int (BYTES_PER_ELEMENT e) = 0"
  by (cases e; simp add: aligned_def roundUp_def; presburger)+

lemma aligned_le_size:
  assumes "c \<le> int n" "n mod 8 = 0"
  shows "aligned e c \<le> int n"
proof -
  from assms(2) obtain k where "n = 8 * k" by (auto elim: dvdE simp: mod_eq_0_iff_dvd)
  with assms(1) show ?thesis
    by (cases e; simp add: aligned_def roundUp_def; presburger)
qed

lemma channel_okD:
  assumes "channel_ok ch" "offset ch = Num c"
  shows "0 \<le> c" "c \<le> int (sizeInBytes ch)" "sizeInBytes ch mod 8 = 0" "byteOffset ch mod 8 = 0"
    "int (sizeInBytes ch) < 2 ^ 31" "c + 7 < 2 ^ 31"
proof -
  show a: "0 \<le> c" "c \<le> int (sizeInBytes ch)" "sizeInBytes ch mod 8 = 0" "byteOffset ch mod 8 = 0"
    using assms by (auto simp: channel_ok_def)
  have b: "sizeInBytes ch < 2 ^ 31" using assms by (simp add: channel_ok_def)
  then show "int (sizeInBytes ch) < 2 ^ 31" by simp
  from a(3) obtain k where "sizeInBytes ch = 8 * k" by (auto elim: dvdE simp: mod_eq_0_iff_dvd)
  with b a(2) show "c + 7 < 2 ^ 31" by simp
qed

lemma update_offset_same: "offset ch = x \<Longrightarrow> ch\<lparr>offset := x\<rparr> = ch"
  by (cases ch) simp

lemma roundUp_1 [simp]: "roundUp c 1 = c"
  by (simp add: roundUp_def)

lemma offsetOf_ok:
  assumes "channel_ok ch" "offset ch = Num c"
  shows "offsetOf e ch =
    (Num (aligned e c div int (BYTES_PER_ELEMENT e)), ch\<lparr>offset := Num (aligned e c)\<rparr>)"
proof -
  note d = channel_okD[OF assms]
  have a4: "alignUp (Num c) 4 = roundUp c 4" using d by (intro alignUp4) auto
  have a8: "alignUp (Num c) 8 = roundUp c 8" using d by (intro alignUp8) auto
  have r4: "0 \<le> roundUp c 4" "roundUp c 4 < 2 ^ 32"
    using d(1,6) by (simp_all add: roundUp_def)
  have r8: "0 \<le> roundUp c 8" "roundUp c 8 < 2 ^ 32"
    using d(1,6) by (simp_all add: roundUp_def)
  show ?thesis
    using assms(2) ushr_eq[OF r4, of 2] ushr_eq[OF r8, of 3]
    by (cases e) (simp_all add: offset8_def offset32_def offset64_def Let_def a4 a8 aligned_def
        update_offset_same)
qed

lemma advanceOf_eq:
  assumes "offset ch = Num a"
  shows "advanceOf e (Num n) ch =
    (if a + n * int (BYTES_PER_ELEMENT e) > int (sizeInBytes ch) then Inl ReachedEndOfChannel
     else Inr (ch\<lparr>offset := Num (a + n * int (BYTES_PER_ELEMENT e))\<rparr>))"
  using assms
  by (cases e) (simp_all add: advance8_def advance32_def advance64_def storage_def Let_def)

subsection \<open>Bytes of elements in the buffer\<close>


lemma store_le_outside:
  "a' < a \<or> a + w \<le> a' \<Longrightarrow> store_le w a v m a' = m a'"
  by (induction w arbitrary: a v m) auto

lemma load_le_cong:
  "(\<And>k. k < w \<Longrightarrow> m (a + k) = m' (a + k)) \<Longrightarrow> load_le w a m = load_le w a m'"
proof (induction w arbitrary: a)
  case 0
  then show ?case by simp
next
  case (Suc w)
  have "m a = m' a" using Suc.prems[of 0] by simp
  moreover have "load_le w (Suc a) m = load_le w (Suc a) m'"
    using Suc.prems[of "Suc k" for k] by (intro Suc.IH) simp
  ultimately show ?case by simp
qed

lemma load_le_bound: "load_le w a m < 256 ^ w"
proof (induction w arbitrary: a)
  case 0
  then show ?case by simp
next
  case (Suc w)
  have "unat (m a) < 256" using unsigned_less[of "m a", where ?'a=nat] by simp
  moreover have "load_le w (Suc a) m < 256 ^ w" by (rule Suc.IH)
  ultimately show ?case by simp
qed

lemma load_store_same: "load_le w a (store_le w a v m) = v mod 256 ^ w"
proof (induction w arbitrary: a v m)
  case 0
  then show ?case by simp
next
  case (Suc w)
  have "store_le w (Suc a) (v div 256) (m(a := of_nat (v mod 256))) a = (of_nat (v mod 256) :: byte)"
    by (simp add: store_le_outside)
  moreover have "unat (of_nat (v mod 256) :: byte) = v mod 256"
    by (simp add: unat_of_nat)
  ultimately show ?case
    by (simp add: Suc.IH mod_mult2_eq)
qed

lemma load_store_disjoint:
  "a' + w' \<le> a \<or> a + w \<le> a' \<Longrightarrow> load_le w' a' (store_le w a v m) = load_le w' a' m"
  by (intro load_le_cong) (auto simp: store_le_outside)

lemma store_elems_outside:
  "a' < a \<or> a + w * length vs \<le> a' \<Longrightarrow> store_elems w a vs m a' = m a'"
proof (induction vs arbitrary: a m)
  case Nil
  then show ?case by simp
next
  case (Cons v vs)
  then have "store_elems w (a + w) vs (store_le w a v m) a' = store_le w a v m a'"
    by (intro Cons.IH) auto
  also have "\<dots> = m a'"
    using Cons.prems by (intro store_le_outside) auto
  finally show ?case by simp
qed


lemma toElement_bound: "toElement e v < 256 ^ BYTES_PER_ELEMENT e"
  by (cases e) (simp_all add: nat_less_iff)


subsection \<open>What each method does on a well-formed channel\<close>


lemma width_pos [simp]: "0 < BYTES_PER_ELEMENT e"
  by (cases e) simp_all

lemma index_facts:
  assumes "0 \<le> a" "a mod int w = 0" "0 < w" "a + int w * int n \<le> int sz"
  shows "0 \<le> a div int w" "nat (a div int w) * w = nat a" "nat (a div int w) + n \<le> sz div w"
proof -
  obtain A where A: "a = int A" using assms(1) by (metis nonneg_int_cases)
  have m: "A mod w = 0" using assms(2) unfolding A by (metis of_nat_mod of_nat_eq_0_iff)
  then obtain k where k: "A = k * w" by (metis dvd_div_mult_self mod_eq_0_iff_dvd)
  have d: "nat (a div int w) = k" unfolding A k using assms(3) by (simp flip: of_nat_mult of_nat_div)
  show "0 \<le> a div int w" using assms(1) by (simp add: pos_imp_zdiv_nonneg_iff assms(3))
  show "nat (a div int w) * w = nat a" unfolding d by (simp add: A k flip: of_nat_mult)
  have "(k + n) * w \<le> sz" using assms(4) unfolding A k
    by (metis (no_types, opaque_lifting) add_mult_distrib mult.commute of_nat_add of_nat_le_iff of_nat_mult)
  then have "(k + n) * w div w \<le> sz div w" by (rule div_le_mono)
  then show "nat (a div int w) + n \<le> sz div w" unfolding d using assms(3) by simp
qed

lemma aligned_facts:
  assumes "channel_ok ch" "offset ch = Num c"
  shows "0 \<le> aligned e c" "aligned e c mod int (BYTES_PER_ELEMENT e) = 0"
    "aligned e c \<le> int (sizeInBytes ch)"
  using channel_okD[OF assms] aligned_bounds[where c=c and e=e] aligned_le_size[where c=c and n="sizeInBytes ch" and e=e]
  by auto

lemma channel_ok_update:
  "channel_ok ch \<Longrightarrow> 0 \<le> a \<Longrightarrow> a \<le> int (sizeInBytes ch) \<Longrightarrow> channel_ok (ch\<lparr>offset := Num a\<rparr>)"
  by (simp add: channel_ok_def)

lemma writeScalar_eq:
  assumes "channel_ok ch" "offset ch = Num c"
  shows "writeScalar e v ch buf =
    (if aligned e c + int (BYTES_PER_ELEMENT e) > int (sizeInBytes ch)
     then (Inl ReachedEndOfChannel, ch\<lparr>offset := Num (aligned e c)\<rparr>, buf)
     else (Inr (), ch\<lparr>offset := Num (aligned e c + int (BYTES_PER_ELEMENT e))\<rparr>,
           buf\<lparr>contents := store_le (BYTES_PER_ELEMENT e) (byteOffset ch + nat (aligned e c))
                  (toElement e v) (contents buf)\<rparr>))"
proof (cases "aligned e c + int (BYTES_PER_ELEMENT e) > int (sizeInBytes ch)")
  case True
  then show ?thesis
    by (simp add: writeScalar_def offsetOf_ok[OF assms] advanceOf_eq)
next
  case False
  note af = aligned_facts[OF assms, of e]
  have "aligned e c + int (BYTES_PER_ELEMENT e) * int 1 \<le> int (sizeInBytes ch)"
    using False by simp
  note ix = index_facts[OF af(1) af(2) width_pos this]
  from ix(3) have lt: "nat (aligned e c div int (BYTES_PER_ELEMENT e)) < sizeInBytes ch div BYTES_PER_ELEMENT e"
    by simp
  show ?thesis
    using False ix(1) lt
    by (simp add: writeScalar_def offsetOf_ok[OF assms] advanceOf_eq ta_put_def storage_def ix(2))
qed

lemma readScalar_eq:
  assumes "channel_ok ch" "offset ch = Num c"
  shows "readScalar e ch buf =
    (if aligned e c + int (BYTES_PER_ELEMENT e) > int (sizeInBytes ch)
     then (Inl ReachedEndOfChannel, ch\<lparr>offset := Num (aligned e c)\<rparr>)
     else (Inr (Some (fromElement e (load_le (BYTES_PER_ELEMENT e)
                   (byteOffset ch + nat (aligned e c)) (contents buf)))),
           ch\<lparr>offset := Num (aligned e c + int (BYTES_PER_ELEMENT e))\<rparr>))"
proof (cases "aligned e c + int (BYTES_PER_ELEMENT e) > int (sizeInBytes ch)")
  case True
  then show ?thesis
    by (simp add: readScalar_def offsetOf_ok[OF assms] advanceOf_eq)
next
  case False
  note af = aligned_facts[OF assms, of e]
  have "aligned e c + int (BYTES_PER_ELEMENT e) * int 1 \<le> int (sizeInBytes ch)"
    using False by simp
  note ix = index_facts[OF af(1) af(2) width_pos this]
  from ix(3) have lt: "nat (aligned e c div int (BYTES_PER_ELEMENT e)) < sizeInBytes ch div BYTES_PER_ELEMENT e"
    by simp
  show ?thesis
    using False ix(1) lt
    by (simp add: readScalar_def offsetOf_ok[OF assms] advanceOf_eq ta_get_def storage_def ix(2))
qed

lemma subarray_eq:
  assumes "0 \<le> i" "nat i + n \<le> ta_length ta"
  shows "subarray e ta (Num i) (num_add (Num i) (Num (int n))) =
     \<lparr>ta_byteOffset = ta_byteOffset ta + nat i * BYTES_PER_ELEMENT e, ta_length = n\<rparr>"
  using assms by (auto simp: subarray_def Let_def min_def max_def)

lemma elements_eq:
  assumes "channel_ok ch" "offset ch = Num c"
  shows "readElements e (Num (int n)) ch =
    (if aligned e c + int n * int (BYTES_PER_ELEMENT e) > int (sizeInBytes ch)
     then (Inl ReachedEndOfChannel, ch\<lparr>offset := Num (aligned e c)\<rparr>)
     else (Inr \<lparr>ta_byteOffset = byteOffset ch + nat (aligned e c), ta_length = n\<rparr>,
           ch\<lparr>offset := Num (aligned e c + int n * int (BYTES_PER_ELEMENT e))\<rparr>))"
proof (cases "aligned e c + int n * int (BYTES_PER_ELEMENT e) > int (sizeInBytes ch)")
  case True
  then show ?thesis
    by (simp add: readElements_def offsetOf_ok[OF assms] advanceOf_eq)
next
  case False
  note af = aligned_facts[OF assms, of e]
  have "aligned e c + int (BYTES_PER_ELEMENT e) * int n \<le> int (sizeInBytes ch)"
    using False by (simp add: mult.commute)
  note ix = index_facts[OF af(1) af(2) width_pos this]
  have "subarray e (storage e ch) (Num (aligned e c div int (BYTES_PER_ELEMENT e)))
          (num_add (Num (aligned e c div int (BYTES_PER_ELEMENT e))) (Num (int n)))
        = \<lparr>ta_byteOffset = byteOffset ch + nat (aligned e c), ta_length = n\<rparr>"
    using ix by (subst subarray_eq) (simp_all add: storage_def)
  then show ?thesis
    using False
    by (simp add: readElements_def offsetOf_ok[OF assms] advanceOf_eq storage_def)
qed

lemma initElements_readElements: "initElements e len ch = readElements e len ch"
  by (simp add: initElements_def readElements_def)

lemma copyElements_eq:
  assumes "channel_ok ch" "offset ch = Num c"
  shows "copyElements e arr ch buf =
    (if aligned e c + int (length arr) * int (BYTES_PER_ELEMENT e) > int (sizeInBytes ch)
     then (Inl ReachedEndOfChannel, ch\<lparr>offset := Num (aligned e c)\<rparr>, buf)
     else (Inr (), ch\<lparr>offset := Num (aligned e c + int (length arr) * int (BYTES_PER_ELEMENT e))\<rparr>,
           buf\<lparr>contents := store_elems (BYTES_PER_ELEMENT e) (byteOffset ch + nat (aligned e c))
                  (map (toElement e) arr) (contents buf)\<rparr>))"
proof (cases "aligned e c + int (length arr) * int (BYTES_PER_ELEMENT e) > int (sizeInBytes ch)")
  case True
  then show ?thesis
    by (simp add: copyElements_def offsetOf_ok[OF assms] advanceOf_eq)
next
  case False
  note af = aligned_facts[OF assms, of e]
  have "aligned e c + int (BYTES_PER_ELEMENT e) * int (length arr) \<le> int (sizeInBytes ch)"
    using False by (simp add: mult.commute)
  note ix = index_facts[OF af(1) af(2) width_pos this]
  show ?thesis
    using False ix(1) ix(3)
    by (simp add: copyElements_def offsetOf_ok[OF assms] advanceOf_eq ta_set_def storage_def ix(2) Let_def)
qed

subsection \<open>What every operation does on a well-formed channel\<close>


lemma channel_ok_cursor:
  "channel_ok ch \<Longrightarrow> \<exists>c. offset ch = Num c"
  by (cases "offset ch") (simp_all add: channel_ok_def)

lemma store_le_frame:
  assumes "0 \<le> a" "a + int w \<le> int (sizeInBytes ch)" "x \<notin> region ch"
  shows "store_le w (byteOffset ch + nat a) v m x = m x"
  using assms by (intro store_le_outside) (auto simp: region_def)

lemma store_elems_frame:
  assumes "0 \<le> a" "a + int (length vs) * int w \<le> int (sizeInBytes ch)" "x \<notin> region ch"
  shows "store_elems w (byteOffset ch + nat a) vs m x = m x"
proof -
  have "int (nat a + w * length vs) \<le> int (sizeInBytes ch)"
    using assms(1,2) by (simp add: mult.commute)
  then have "nat a + w * length vs \<le> sizeInBytes ch" by linarith
  with assms(3) show ?thesis
    by (intro store_elems_outside) (auto simp: region_def)
qed

lemma initScalar_eq:
  assumes "channel_ok ch" "offset ch = Num c"
  shows "fst (initScalar e ch) =
           (if aligned e c + int (BYTES_PER_ELEMENT e) > int (sizeInBytes ch)
            then Inl ReachedEndOfChannel
            else Inr (\<lambda>v buf. ta_put e (storage e ch) (Num (aligned e c div int (BYTES_PER_ELEMENT e))) v buf))"
    and "snd (initScalar e ch) =
           (if aligned e c + int (BYTES_PER_ELEMENT e) > int (sizeInBytes ch)
            then ch\<lparr>offset := Num (aligned e c)\<rparr>
            else ch\<lparr>offset := Num (aligned e c + int (BYTES_PER_ELEMENT e))\<rparr>)"
  by (simp_all add: initScalar_def offsetOf_ok[OF assms] advanceOf_eq storage_def)

lemma perform_primitive:
  assumes ok: "channel_ok ch" and off: "offset ch = Num c" and prim: "primitive x"
    and p: "perform x ch buf = (r, ch', buf')"
  shows "r = (if extent x ch buf c > int (sizeInBytes ch) then Some ReachedEndOfChannel else None)"
    and "ch' = ch\<lparr>offset := Num (if r = None then extent x ch buf c else aligned (elemOf x) c)\<rparr>"
    and "r \<noteq> None \<longrightarrow> buf' = buf"
    and "byteLength buf' = byteLength buf"
    and "\<forall>a. a \<notin> region ch \<longrightarrow> contents buf' a = contents buf a"
proof -
  note af = aligned_facts[OF ok off, of "elemOf x"]
  have all: "r = (if extent x ch buf c > int (sizeInBytes ch) then Some ReachedEndOfChannel else None)
    \<and> ch' = ch\<lparr>offset := Num (if r = None then extent x ch buf c else aligned (elemOf x) c)\<rparr>
    \<and> (r \<noteq> None \<longrightarrow> buf' = buf) \<and> byteLength buf' = byteLength buf
    \<and> (\<forall>a. a \<notin> region ch \<longrightarrow> contents buf' a = contents buf a)"
  proof (cases x)
    case (WriteScalar e v)
    with p af show ?thesis
      by (auto simp: writeScalar_eq[OF ok off] store_le_frame split: if_splits)
  next
    case (InitScalar e)
    with p show ?thesis
      using initScalar_eq[OF ok off, of e]
      by (auto simp: split_beta split: if_splits)
  next
    case (InitElements e n)
    with p show ?thesis
      by (auto simp: initElements_readElements elements_eq[OF ok off] split: if_splits)
  next
    case (CopyElements e arr)
    with p af show ?thesis
      using store_elems_frame[of "aligned e c" "map (toElement e) arr" "BYTES_PER_ELEMENT e" ch]
      by (auto simp: copyElements_eq[OF ok off] split: if_splits)
  next
    case (ReadScalar e)
    with p show ?thesis
      by (auto simp: readScalar_eq[OF ok off] split: if_splits)
  next
    case (ReadElements e n)
    with p show ?thesis
      by (auto simp: elements_eq[OF ok off] split: if_splits)
  qed (use prim in simp_all)
  from all show "r = (if extent x ch buf c > int (sizeInBytes ch) then Some ReachedEndOfChannel else None)"
    and "ch' = ch\<lparr>offset := Num (if r = None then extent x ch buf c else aligned (elemOf x) c)\<rparr>"
    and "r \<noteq> None \<longrightarrow> buf' = buf"
    and "byteLength buf' = byteLength buf"
    and "\<forall>a. a \<notin> region ch \<longrightarrow> contents buf' a = contents buf a"
    by blast+
qed



lemma perform_primitive_facts:
  assumes ok: "channel_ok ch" and off: "offset ch = Num c" and prim: "primitive x"
    and p: "perform x ch buf = (r, ch', buf')"
  shows "r = (if extent x ch buf c > int (sizeInBytes ch) then Some ReachedEndOfChannel else None)
      \<and> channel_ok ch' \<and> byteOffset ch' = byteOffset ch \<and> sizeInBytes ch' = sizeInBytes ch
      \<and> (r = None \<longrightarrow> offset ch' = Num (extent x ch buf c))
      \<and> byteLength buf' = byteLength buf
      \<and> (\<forall>a. a \<notin> region ch \<longrightarrow> contents buf' a = contents buf a)"
proof -
  note pp = perform_primitive[OF assms]
  note af = aligned_facts[OF ok off, of "elemOf x"]
  have "0 \<le> extent x ch buf c" using af(1) prim
    by (cases x) (auto intro: add_nonneg_nonneg)
  then have "channel_ok ch'"
    using pp(1) af ok by (subst pp(2)) (auto intro!: channel_ok_update split: if_splits)
  moreover have "byteOffset ch' = byteOffset ch \<and> sizeInBytes ch' = sizeInBytes ch"
    by (subst (1 2) pp(2)) simp
  moreover have "r = None \<longrightarrow> offset ch' = Num (extent x ch buf c)"
    by (subst pp(2)) simp
  ultimately show ?thesis using pp(1,4,5) by blast
qed

lemma after_prefix:
  assumes ok: "channel_ok ch" and off: "offset ch = Num c"
    and fit: "\<not> aligned Uint32 c + 4 > int (sizeInBytes ch)"
  shows "channel_ok (ch\<lparr>offset := Num (aligned Uint32 c + 4)\<rparr>)"
    and "offset (ch\<lparr>offset := Num (aligned Uint32 c + 4)\<rparr>) = Num (aligned Uint32 c + 4)"
    and "region (ch\<lparr>offset := Num (aligned Uint32 c + 4)\<rparr>) = region ch"
  using aligned_facts[OF ok off, of Uint32] ok fit
  by (auto intro!: channel_ok_update simp: region_def)

lemma extent_prefix:
  assumes "aligned Uint32 c + 4 > sz"
  shows "aligned e (aligned Uint32 c + 4) + int n * int (BYTES_PER_ELEMENT e) > sz"
proof -
  have "aligned Uint32 c + 4 \<le> aligned e (aligned Uint32 c + 4)" by (rule aligned_bounds)
  moreover have "0 \<le> int n * int (BYTES_PER_ELEMENT e)" by simp
  ultimately show ?thesis using assms by linarith
qed

lemma perform_CopyArray:
  assumes "channel_ok ch" "offset ch = Num c"
  shows "perform (CopyArray e arr) ch buf =
     (if aligned Uint32 c + 4 > int (sizeInBytes ch)
      then (Some ReachedEndOfChannel, ch\<lparr>offset := Num (aligned Uint32 c)\<rparr>, buf)
      else perform (CopyElements e arr) (ch\<lparr>offset := Num (aligned Uint32 c + 4)\<rparr>)
             (buf\<lparr>contents := store_le 4 (byteOffset ch + nat (aligned Uint32 c))
                  (toElement Uint32 (int (length arr))) (contents buf)\<rparr>))"
  using writeScalar_eq[OF assms, of Uint32]
  by (simp add: copyArray_def writeUint32_def)

lemma perform_InitArray:
  assumes "channel_ok ch" "offset ch = Num c"
  shows "perform (InitArray e n) ch buf =
     (if aligned Uint32 c + 4 > int (sizeInBytes ch)
      then (Some ReachedEndOfChannel, ch\<lparr>offset := Num (aligned Uint32 c)\<rparr>, buf)
      else perform (InitElements e n) (ch\<lparr>offset := Num (aligned Uint32 c + 4)\<rparr>)
             (buf\<lparr>contents := store_le 4 (byteOffset ch + nat (aligned Uint32 c))
                  (toElement Uint32 (int n)) (contents buf)\<rparr>))"
  using writeScalar_eq[OF assms, of Uint32]
  by (simp add: initArray_def writeUint32_def split: prod.splits)

lemma perform_ReadArray:
  assumes "channel_ok ch" "offset ch = Num c"
  shows "perform (ReadArray e) ch buf =
     (if aligned Uint32 c + 4 > int (sizeInBytes ch)
      then (Some ReachedEndOfChannel, ch\<lparr>offset := Num (aligned Uint32 c)\<rparr>, buf)
      else perform (ReadElements e (load_le 4 (byteOffset ch + nat (aligned Uint32 c)) (contents buf)))
             (ch\<lparr>offset := Num (aligned Uint32 c + 4)\<rparr>) buf)"
  by (simp add: readArray_def readUint32_def readScalar_eq[OF assms])

lemma composite_facts:
  assumes ok: "channel_ok ch" and off: "offset ch = Num c"
    and split: "perform x ch buf =
       (if aligned Uint32 c + 4 > int (sizeInBytes ch)
        then (Some ReachedEndOfChannel, ch\<lparr>offset := Num (aligned Uint32 c)\<rparr>, buf)
        else perform y (ch\<lparr>offset := Num (aligned Uint32 c + 4)\<rparr>) buf1)"
    and big: "aligned Uint32 c + 4 > int (sizeInBytes ch) \<Longrightarrow> extent x ch buf c > int (sizeInBytes ch)"
    and small: "\<not> aligned Uint32 c + 4 > int (sizeInBytes ch) \<Longrightarrow>
       extent x ch buf c = extent y (ch\<lparr>offset := Num (aligned Uint32 c + 4)\<rparr>) buf1 (aligned Uint32 c + 4)"
    and prim: "primitive y"
    and len: "byteLength buf1 = byteLength buf"
    and frame: "\<forall>a. a \<notin> region ch \<longrightarrow> contents buf1 a = contents buf a"
    and p: "perform x ch buf = (r, ch', buf')"
  shows "r = (if extent x ch buf c > int (sizeInBytes ch) then Some ReachedEndOfChannel else None)
      \<and> channel_ok ch' \<and> byteOffset ch' = byteOffset ch \<and> sizeInBytes ch' = sizeInBytes ch
      \<and> (r = None \<longrightarrow> offset ch' = Num (extent x ch buf c))
      \<and> byteLength buf' = byteLength buf
      \<and> (\<forall>a. a \<notin> region ch \<longrightarrow> contents buf' a = contents buf a)"
proof (cases "aligned Uint32 c + 4 > int (sizeInBytes ch)")
  case True
  have "channel_ok (ch\<lparr>offset := Num (aligned Uint32 c)\<rparr>)"
    using aligned_facts[OF ok off, of Uint32] ok by (intro channel_ok_update) auto
  with True p split big show ?thesis by auto
next
  case False
  note ap = after_prefix[OF ok off False]
  from p split False
  have "perform y (ch\<lparr>offset := Num (aligned Uint32 c + 4)\<rparr>) buf1 = (r, ch', buf')" by simp
  from perform_primitive_facts[OF ap(1) ap(2) prim this] small[OF False] len frame ap(3)
  show ?thesis by simp
qed

lemma perform_facts:
  assumes ok: "channel_ok ch" and off: "offset ch = Num c"
    and p: "perform x ch buf = (r, ch', buf')"
  shows "r = (if extent x ch buf c > int (sizeInBytes ch) then Some ReachedEndOfChannel else None)
      \<and> channel_ok ch' \<and> byteOffset ch' = byteOffset ch \<and> sizeInBytes ch' = sizeInBytes ch
      \<and> (r = None \<longrightarrow> offset ch' = Num (extent x ch buf c))
      \<and> byteLength buf' = byteLength buf
      \<and> (\<forall>a. a \<notin> region ch \<longrightarrow> contents buf' a = contents buf a)"
proof (cases "primitive x")
  case True
  from perform_primitive_facts[OF ok off True p] show ?thesis .
next
  case False
  note af = aligned_facts[OF ok off, of Uint32]
  have fr: "\<forall>a. a \<notin> region ch \<longrightarrow>
      store_le 4 (byteOffset ch + nat (aligned Uint32 c)) v (contents buf) a = contents buf a"
    if "\<not> aligned Uint32 c + 4 > int (sizeInBytes ch)" for v
    using that af(1) by (auto intro!: store_le_frame)
  from False show ?thesis
  proof (cases x)
    case (InitArray e n)
    show ?thesis
    proof (cases "aligned Uint32 c + 4 > int (sizeInBytes ch)")
      case True
      with composite_facts[OF ok off _ _ _ _ _ _ p, of "InitElements e n" buf] InitArray
        perform_InitArray[OF ok off, of e n buf] extent_prefix[of "int (sizeInBytes ch)" c e n]
      show ?thesis by simp
    next
      case F: False
      with composite_facts[OF ok off _ _ _ _ _ _ p, of "InitElements e n"
          "buf\<lparr>contents := store_le 4 (byteOffset ch + nat (aligned Uint32 c))
                  (toElement Uint32 (int n)) (contents buf)\<rparr>"] InitArray
        perform_InitArray[OF ok off, of e n buf] fr[OF F]
      show ?thesis by simp
    qed
  next
    case (CopyArray e arr)
    show ?thesis
    proof (cases "aligned Uint32 c + 4 > int (sizeInBytes ch)")
      case True
      with composite_facts[OF ok off _ _ _ _ _ _ p, of "CopyElements e arr" buf] CopyArray
        perform_CopyArray[OF ok off, of e arr buf] extent_prefix[of "int (sizeInBytes ch)" c e "length arr"]
      show ?thesis by simp
    next
      case F: False
      with composite_facts[OF ok off _ _ _ _ _ _ p, of "CopyElements e arr"
          "buf\<lparr>contents := store_le 4 (byteOffset ch + nat (aligned Uint32 c))
                  (toElement Uint32 (int (length arr))) (contents buf)\<rparr>"] CopyArray
        perform_CopyArray[OF ok off, of e arr buf] fr[OF F]
      show ?thesis by simp
    qed
  next
    case (ReadArray e)
    with composite_facts[OF ok off _ _ _ _ _ _ p,
        of "ReadElements e (load_le 4 (byteOffset ch + nat (aligned Uint32 c)) (contents buf))" buf]
      perform_ReadArray[OF ok off, of e buf]
    show ?thesis by (simp add: Let_def)
  qed simp_all
qed


subsection \<open>Sequences of operations, failed operations, small evaluations\<close>

lemma Channel_ok:
  assumes "Channel buf0 offs sz = Inr ch0" "sz < 2 ^ 31"
  shows "channel_ok ch0" "byteOffset ch0 = nat offs" "sizeInBytes ch0 = nat sz" "offset ch0 = Num 0"
    "0 \<le> offs" "0 \<le> sz" "offs + sz \<le> int (byteLength buf0)"
proof -
  from assms(1) have g: "offs mod 8 = 0" "sz mod 8 = 0" "0 \<le> offs" "0 \<le> sz"
    "offs + sz \<le> int (byteLength buf0)"
    and c: "ch0 = \<lparr>offset = Num 0, byteOffset = nat offs, sizeInBytes = nat sz\<rparr>"
    by (auto simp: Channel_def split: if_splits)
  from g show "0 \<le> offs" "0 \<le> sz" "offs + sz \<le> int (byteLength buf0)" by simp_all
  from c show "byteOffset ch0 = nat offs" "sizeInBytes ch0 = nat sz" "offset ch0 = Num 0" by simp_all
  have "nat offs mod 8 = 0" "nat sz mod 8 = 0"
    using g by presburger+
  moreover have "nat sz < 2 ^ 31" using assms(2) g(4) by (simp add: nat_less_iff)
  ultimately show "channel_ok ch0" using c by (simp add: channel_ok_def)
qed

lemma run_ok:
  assumes "channel_ok ch0" "run ops (ch0, b0) = (ch, buf)"
  shows "channel_ok ch \<and> byteOffset ch = byteOffset ch0 \<and> sizeInBytes ch = sizeInBytes ch0"
  using assms
proof (induction ops arbitrary: ch0 b0)
  case Nil
  then show ?case by simp
next
  case (Cons x xs)
  obtain r ch1 b1 where p: "perform x ch0 b0 = (r, ch1, b1)" by (metis prod_cases3)
  obtain c where c: "offset ch0 = Num c" using channel_ok_cursor[OF Cons.prems(1)] by blast
  note f = perform_facts[OF Cons.prems(1) c p]
  from Cons.prems(2) p have "run xs (ch1, b1) = (ch, buf)" by simp
  from Cons.IH[OF _ this] f show ?case by simp
qed

lemma aligned_values:
  "aligned Uint32 1 = 4" "aligned Uint32 0 = 0" "aligned Uint32 6 = 8" "aligned Float64 1 = 8"
  "aligned Uint32 4 = 4" "aligned Float64 4 = 8" "aligned Uint32 8 = 8"
  by (simp_all add: aligned_def roundUp_def)

lemma ta_set_error: "ta_set e ta arr start buf = Inl err \<Longrightarrow> err = RangeError"
  by (auto simp: ta_set_def Let_def split: if_splits)

lemma failed_primitive:
  assumes "primitive x" "perform x ch buf = (Some ReachedEndOfChannel, ch', buf')"
  shows "buf' = buf \<and> ch' = snd (offsetOf (elemOf x) ch)"
proof -
  obtain offs ch1 where o: "offsetOf (elemOf x) ch = (offs, ch1)" by (metis surj_pair)
  show ?thesis
  proof (cases x)
    case (WriteScalar e v)
    with assms(2) o show ?thesis
      by (cases "advanceOf e (Num 1) ch1") (simp_all add: writeScalar_def)
  next
    case (InitScalar e)
    with assms(2) o show ?thesis
      by (cases "advanceOf e (Num 1) ch1") (simp_all add: initScalar_def)
  next
    case (InitElements e n)
    with assms(2) o show ?thesis
      by (cases "advanceOf e (Num (int n)) ch1") (simp_all add: initElements_def)
  next
    case (CopyElements e arr)
    with assms(2) o show ?thesis
    proof (cases "advanceOf e (Num (int (length arr))) ch1")
      case (Inl err)
      with CopyElements assms(2) o show ?thesis by (simp add: copyElements_def)
    next
      case (Inr ch2)
      with CopyElements assms(2) o show ?thesis
        by (cases "ta_set e (storage e ch2) arr offs buf")
           (auto simp: copyElements_def dest: ta_set_error)
    qed
  next
    case (ReadScalar e)
    with assms(2) o show ?thesis
      by (cases "advanceOf e (Num 1) ch1") (simp_all add: readScalar_def)
  next
    case (ReadElements e n)
    with assms(2) o show ?thesis
      by (cases "advanceOf e (Num (int n)) ch1") (simp_all add: readElements_def)
  qed (use assms(1) in simp_all)
qed

lemma failed_InitArray:
  assumes "perform (InitArray e n) ch buf = (Some ReachedEndOfChannel, ch', buf')"
  shows "buf' = buf \<or> buf' = snd (snd (writeUint32 (int n) ch buf))"
proof (cases "writeUint32 (int n) ch buf")
  case (fields r ch1 buf1)
  show ?thesis
  proof (cases r)
    case (Inl err)
    with fields assms have "buf' = buf1" by (simp add: initArray_def)
    moreover from Inl fields have "buf1 = buf"
      by (auto simp: writeUint32_def writeScalar_def split: prod.splits sum.splits)
    ultimately show ?thesis by simp
  next
    case (Inr u)
    with fields assms have "buf' = buf1"
      by (simp add: initArray_def split: prod.splits)
    with fields show ?thesis by simp
  qed
qed

lemma failed_CopyArray:
  assumes "perform (CopyArray e arr) ch buf = (Some ReachedEndOfChannel, ch', buf')"
  shows "buf' = buf \<or> buf' = snd (snd (writeUint32 (int (length arr)) ch buf))"
proof (cases "writeUint32 (int (length arr)) ch buf")
  case (fields r ch1 buf1)
  show ?thesis
  proof (cases r)
    case (Inl err)
    with fields assms have "buf' = buf1" by (simp add: copyArray_def)
    moreover from Inl fields have "buf1 = buf"
      by (auto simp: writeUint32_def writeScalar_def split: prod.splits sum.splits)
    ultimately show ?thesis by simp
  next
    case (Inr u)
    with fields assms have "perform (CopyElements e arr) ch1 buf1 = (Some ReachedEndOfChannel, ch', buf')"
      by (simp add: copyArray_def)
    from failed_primitive[OF _ this] have "buf' = buf1" by simp
    with fields show ?thesis by simp
  qed
qed

lemma store_le_4_first: "store_le 4 a v m a = of_nat (v mod 256)"
proof -
  have 4: "(4::nat) = Suc 3" by simp
  show ?thesis unfolding 4 store_le.simps(2) by (simp add: store_le_outside)
qed


subsection \<open>Reading back what was written\<close>






section \<open>Properties of the instance bootstrap\<close>












lemma aligned_zero: "aligned e 0 = 0"
  by (cases e) (simp_all add: aligned_def roundUp_def)

lemma Channel_built:
  assumes "ptr mod 8 = 0" "sz mod 8 = 0" "0 \<le> ptr" "0 \<le> sz" "ptr + sz \<le> int (byteLength buf)"
  shows "Channel buf ptr sz = Inr \<lparr>offset = Num 0, byteOffset = nat ptr, sizeInBytes = nat sz\<rparr>"
  using assms by (simp add: Channel_def)

lemma fresh_channel_ok:
  assumes "ptr mod 8 = 0" "sz mod 8 = 0" "0 \<le> ptr" "0 \<le> sz" "sz < 2 ^ 31"
  shows "channel_ok \<lparr>offset = Num 0, byteOffset = nat ptr, sizeInBytes = nat sz\<rparr>"
proof -
  have "nat ptr mod 8 = 0" "nat sz mod 8 = 0" using assms by presburger+
  moreover have "nat sz < 2 ^ 31" using assms by (simp add: nat_less_iff)
  ultimately show ?thesis by (simp add: channel_ok_def)
qed

lemma reset_geometry:
  assumes "byteOffset ch = a" "sizeInBytes ch = n"
  shows "reset ch = \<lparr>offset = Num 0, byteOffset = a, sizeInBytes = n\<rparr>"
  using assms by (cases ch) (simp add: reset_def)

lemma getView_channel:
  assumes r: "region_ok ptr sz mem vs"
  obtains ident ch vs' where
    "getView (\<lambda>buf. Channel buf ptr sz) mem vs = (Inr (ident, ch), vs')"
    "reset ch = \<lparr>offset = Num 0, byteOffset = nat ptr, sizeInBytes = nat sz\<rparr>"
    "vs_buffer vs' = Some (buffer_id mem)" "view_ok vs'" "vs_instance vs' = Some (ident, ch)"
    "vs_buffer vs = Some (buffer_id mem) \<Longrightarrow> vs_instance vs = Some (ident, ch)  \<or> vs_instance vs = None"
proof -
  from r have g: "ptr mod 8 = 0" "sz mod 8 = 0" "0 \<le> ptr" "0 \<le> sz"
    "ptr + sz \<le> int (byteLength (buffer mem))" and vo: "view_ok vs"
    by (simp_all add: region_ok_def)
  note cb = Channel_built[OF g]
  let ?new = "\<lparr>offset = Num 0, byteOffset = nat ptr, sizeInBytes = nat sz\<rparr>"
  show thesis
  proof (cases "vs_instance vs")
    case None
    then have gv: "getView (\<lambda>buf. Channel buf ptr sz) mem vs =
        (Inr (vs_builds vs, ?new), vs\<lparr>vs_buffer := Some (buffer_id mem),
            vs_instance := Some (vs_builds vs, ?new), vs_builds := Suc (vs_builds vs)\<rparr>)"
      by (simp add: getView_def rebuild_def cb)
    show ?thesis
      by (rule that[OF gv]) (simp_all add: reset_def view_ok_def None)
  next
    case (Some obj)
    obtain n ch where obj: "obj = (n, ch)" by (cases obj)
    from r Some obj have geo: "byteOffset ch = nat ptr" "sizeInBytes ch = nat sz"
      by (simp_all add: region_ok_def)
    show ?thesis
    proof (cases "vs_buffer vs = Some (buffer_id mem)")
      case True
      with Some obj have gv: "getView (\<lambda>buf. Channel buf ptr sz) mem vs = (Inr (n, ch), vs)"
        by (simp add: getView_def)
      show ?thesis
        by (rule that[OF gv]) (simp_all add: reset_geometry[OF geo] True vo Some obj)
    next
      case False
      with Some have gv: "getView (\<lambda>buf. Channel buf ptr sz) mem vs =
        (Inr (vs_builds vs, ?new), vs\<lparr>vs_buffer := Some (buffer_id mem),
            vs_instance := Some (vs_builds vs, ?new), vs_builds := Suc (vs_builds vs)\<rparr>)"
        by (simp add: getView_def rebuild_def cb)
      show ?thesis
        by (rule that[OF gv]) (simp_all add: reset_def view_ok_def False)
    qed
  qed
qed

lemma region_ok_reset:
  assumes r: "region_ok ptr sz mem vs" and vo: "view_ok vs'" and i: "vs_instance vs' = Some (ident, ch)"
  shows "region_ok ptr sz mem
     (vs'\<lparr>vs_instance := Some (ident, \<lparr>offset = Num 0, byteOffset = nat ptr, sizeInBytes = nat sz\<rparr>)\<rparr>)"
proof -
  from r have g: "ptr mod 8 = 0" "sz mod 8 = 0" "0 \<le> ptr" "0 \<le> sz" "sz < 2 ^ 31"
    "ptr + sz \<le> int (byteLength (buffer mem))"
    by (simp_all add: region_ok_def)
  from vo i have "ident < vs_builds vs'" by (simp add: view_ok_def)
  with g fresh_channel_ok[OF g(1-5)] show ?thesis
    by (simp add: region_ok_def view_ok_def)
qed

lemma getInput_result:
  assumes ok: "inst_ok i"
  obtains ident i1 where
    "getInput i = (Inr ident, i1)"
    "vs_instance (inputChannel i1) = Some (ident,
        \<lparr>offset = Num 0, byteOffset = nat (inputPtr i), sizeInBytes = nat (inputChannelSize i)\<rparr>)"
    "vs_buffer (inputChannel i1) = Some (buffer_id (memory i))"
    "memory i1 = memory i" "inputPtr i1 = inputPtr i" "inputChannelSize i1 = inputChannelSize i"
    "inst_ok i1"
    "\<And>n ch. vs_buffer (inputChannel i) = Some (buffer_id (memory i)) \<Longrightarrow>
        vs_instance (inputChannel i) = Some (n, ch) \<Longrightarrow> ident = n"
proof -
  from ok have r: "region_ok (inputPtr i) (inputChannelSize i) (memory i) (inputChannel i)"
    and ro: "region_ok (outputPtr i) (outputChannelSize i) (memory i) (outputChannel i)"
    by (simp_all add: inst_ok_def)
  from getView_channel[OF r] obtain ident ch vs' where
    g: "getView (\<lambda>buf. Channel buf (inputPtr i) (inputChannelSize i)) (memory i) (inputChannel i) = (Inr (ident, ch), vs')"
    "reset ch = \<lparr>offset = Num 0, byteOffset = nat (inputPtr i), sizeInBytes = nat (inputChannelSize i)\<rparr>"
    "vs_buffer vs' = Some (buffer_id (memory i))" "view_ok vs'" "vs_instance vs' = Some (ident, ch)"
    "vs_buffer (inputChannel i) = Some (buffer_id (memory i)) \<Longrightarrow>
       vs_instance (inputChannel i) = Some (ident, ch) \<or> vs_instance (inputChannel i) = None"
    by blast
  let ?vs1 = "vs'\<lparr>vs_instance := Some (ident,
             \<lparr>offset = Num 0, byteOffset = nat (inputPtr i), sizeInBytes = nat (inputChannelSize i)\<rparr>)\<rparr>"
  let ?i1 = "i\<lparr>inputChannel := ?vs1\<rparr>"
  have gi: "getInput i = (Inr ident, ?i1)" by (simp add: getInput_def g(1,2))
  have r1: "region_ok (inputPtr i) (inputChannelSize i) (memory i) ?vs1"
    by (rule region_ok_reset[OF r g(4) g(5)])
  show thesis
  proof (rule that[OF gi])
    show "inst_ok ?i1" using r1 ro by (simp add: inst_ok_def)
    fix n ch'
    assume "vs_buffer (inputChannel i) = Some (buffer_id (memory i))"
      "vs_instance (inputChannel i) = Some (n, ch')"
    with g(6) show "ident = n" by auto
  qed (simp_all add: g(3))
qed

lemma getOutput_result:
  assumes ok: "inst_ok i"
  obtains ident i1 where
    "getOutput i = (Inr ident, i1)"
    "vs_instance (outputChannel i1) = Some (ident,
        \<lparr>offset = Num 0, byteOffset = nat (outputPtr i), sizeInBytes = nat (outputChannelSize i)\<rparr>)"
    "memory i1 = memory i" "inst_ok i1"
proof -
  from ok have ri: "region_ok (inputPtr i) (inputChannelSize i) (memory i) (inputChannel i)"
    and r: "region_ok (outputPtr i) (outputChannelSize i) (memory i) (outputChannel i)"
    by (simp_all add: inst_ok_def)
  from getView_channel[OF r] obtain ident ch vs' where
    g: "getView (\<lambda>buf. Channel buf (outputPtr i) (outputChannelSize i)) (memory i) (outputChannel i) = (Inr (ident, ch), vs')"
    "reset ch = \<lparr>offset = Num 0, byteOffset = nat (outputPtr i), sizeInBytes = nat (outputChannelSize i)\<rparr>"
    "vs_buffer vs' = Some (buffer_id (memory i))" "view_ok vs'" "vs_instance vs' = Some (ident, ch)"
    by blast
  let ?vs1 = "vs'\<lparr>vs_instance := Some (ident,
             \<lparr>offset = Num 0, byteOffset = nat (outputPtr i), sizeInBytes = nat (outputChannelSize i)\<rparr>)\<rparr>"
  let ?i1 = "i\<lparr>outputChannel := ?vs1\<rparr>"
  have gi: "getOutput i = (Inr ident, ?i1)" by (simp add: getOutput_def g(1,2))
  have r1: "region_ok (outputPtr i) (outputChannelSize i) (memory i) ?vs1"
    by (rule region_ok_reset[OF r g(4) g(5)])
  show thesis
  proof (rule that[OF gi])
    show "inst_ok ?i1" using r1 ri by (simp add: inst_ok_def)
  qed simp_all
qed

text \<open>A scalar write through the input reference.\<close>

lemma onInput_write:
  assumes ok: "inst_ok i"
    and c: "vs_instance (inputChannel i) = Some (ident, ch)" and off: "offset ch = Num c"
  obtains r ch' buf' where
    "writeScalar e v ch (buffer (memory i)) = (r, ch', buf')"
    "onInput (writeScalar e v) i =
       (Some r, i\<lparr>memory := (memory i)\<lparr>buffer := buf'\<rparr>,
                   inputChannel := (inputChannel i)\<lparr>vs_instance := Some (ident, ch')\<rparr>\<rparr>)"
    "inst_ok (i\<lparr>memory := (memory i)\<lparr>buffer := buf'\<rparr>,
                   inputChannel := (inputChannel i)\<lparr>vs_instance := Some (ident, ch')\<rparr>\<rparr>)"
proof -
  obtain r ch' buf' where w: "writeScalar e v ch (buffer (memory i)) = (r, ch', buf')"
    by (metis prod_cases3)
  from ok have ri: "region_ok (inputPtr i) (inputChannelSize i) (memory i) (inputChannel i)"
    and ro: "region_ok (outputPtr i) (outputChannelSize i) (memory i) (outputChannel i)"
    by (simp_all add: inst_ok_def)
  from ri c have cok: "channel_ok ch" and geo: "byteOffset ch = nat (inputPtr i)"
    "sizeInBytes ch = nat (inputChannelSize i)" and vo: "view_ok (inputChannel i)"
    by (simp_all add: region_ok_def)
  from w have p: "perform (WriteScalar e v) ch (buffer (memory i)) = (raised r, ch', buf')" by simp
  note f = perform_facts[OF cok off p]
  from f have f': "channel_ok ch'" "byteOffset ch' = byteOffset ch" "sizeInBytes ch' = sizeInBytes ch"
    "byteLength buf' = byteLength (buffer (memory i))" by simp_all
  have o: "onInput (writeScalar e v) i =
       (Some r, i\<lparr>memory := (memory i)\<lparr>buffer := buf'\<rparr>,
                   inputChannel := (inputChannel i)\<lparr>vs_instance := Some (ident, ch')\<rparr>\<rparr>)"
    by (simp add: onInput_def c w)
  have "inst_ok (i\<lparr>memory := (memory i)\<lparr>buffer := buf'\<rparr>,
                   inputChannel := (inputChannel i)\<lparr>vs_instance := Some (ident, ch')\<rparr>\<rparr>)"
    using ri ro c f' geo vo
    by (simp add: inst_ok_def region_ok_def view_ok_def)
  with w o show thesis by (rule that)
qed


lemma write_after_retrieval:
  assumes ok: "inst_ok i"
    and c: "vs_instance (inputChannel i) = Some (ident,
              \<lparr>offset = Num 0, byteOffset = nat (inputPtr i), sizeInBytes = nat (inputChannelSize i)\<rparr>)"
    and fits: "int (BYTES_PER_ELEMENT e) \<le> inputChannelSize i"
  obtains i' where
    "onInput (writeScalar e v) i = (Some (Inr ()), i')"
    "inputCursor i' = Some (Num (int (BYTES_PER_ELEMENT e)))"
    "load_le (BYTES_PER_ELEMENT e) (nat (inputPtr i)) (contents (buffer (memory i'))) = toElement e v"
    "\<And>a. a < nat (inputPtr i) \<or> nat (inputPtr i) + BYTES_PER_ELEMENT e \<le> a \<Longrightarrow> getByte i' a = getByte i a"
proof -
  let ?ch = "\<lparr>offset = Num 0, byteOffset = nat (inputPtr i), sizeInBytes = nat (inputChannelSize i)\<rparr>"
  let ?w = "BYTES_PER_ELEMENT e"
  from ok c have cok: "channel_ok ?ch" by (simp add: inst_ok_def region_ok_def)
  have off: "offset ?ch = Num 0" by simp
  from fits have nf: "\<not> int ?w > int (nat (inputChannelSize i))" by simp
  let ?buf' = "(buffer (memory i))\<lparr>contents := store_le ?w (nat (inputPtr i)) (toElement e v)
                  (contents (buffer (memory i)))\<rparr>"
  have w: "writeScalar e v ?ch (buffer (memory i)) = (Inr (), ?ch\<lparr>offset := Num (int ?w)\<rparr>, ?buf')"
    using nf by (simp add: writeScalar_eq[OF cok off] aligned_zero)
  let ?i' = "i\<lparr>memory := (memory i)\<lparr>buffer := ?buf'\<rparr>,
               inputChannel := (inputChannel i)\<lparr>vs_instance := Some (ident, ?ch\<lparr>offset := Num (int ?w)\<rparr>)\<rparr>\<rparr>"
  have o: "onInput (writeScalar e v) i = (Some (Inr ()), ?i')"
    by (simp only: onInput_def c w option.case prod.case)
  show thesis
  proof (rule that[OF o])
    show "inputCursor ?i' = Some (Num (int ?w))" by (simp add: inputCursor_def)
    show "load_le ?w (nat (inputPtr i)) (contents (buffer (memory ?i'))) = toElement e v"
      using toElement_bound[of e v] by (simp add: load_store_same)
    fix a assume "a < nat (inputPtr i) \<or> nat (inputPtr i) + ?w \<le> a"
    then show "getByte ?i' a = getByte i a" by (simp add: getByte_def store_le_outside)
  qed
qed

lemma retrieve_write_retrieve:
  assumes ok: "inst_ok i"
  obtains ident i1 r1 i2 i3 where
    "getInput i = (Inr ident, i1)" "onInput (writeScalar e1 v1) i1 = (Some r1, i2)"
    "getInput i2 = (Inr ident, i3)" "inputCursor i3 = Some (Num 0)" "memory i3 = memory i2"
    "inst_ok i3" "inputPtr i3 = inputPtr i" "inputChannelSize i3 = inputChannelSize i"
    "vs_instance (inputChannel i3) = Some (ident,
        \<lparr>offset = Num 0, byteOffset = nat (inputPtr i), sizeInBytes = nat (inputChannelSize i)\<rparr>)"
proof (rule getInput_result[OF ok])
  fix ident i1
  assume g1: "getInput i = (Inr ident, i1)"
    "vs_instance (inputChannel i1) = Some (ident,
        \<lparr>offset = Num 0, byteOffset = nat (inputPtr i), sizeInBytes = nat (inputChannelSize i)\<rparr>)"
    "vs_buffer (inputChannel i1) = Some (buffer_id (memory i))"
    "memory i1 = memory i" "inputPtr i1 = inputPtr i" "inputChannelSize i1 = inputChannelSize i"
    "inst_ok i1"
  have off: "offset \<lparr>offset = Num 0, byteOffset = nat (inputPtr i), sizeInBytes = nat (inputChannelSize i)\<rparr> = Num 0"
    by simp
  show thesis
  proof (rule onInput_write[OF g1(7) g1(2) off, of e1 v1])
    fix r1 ch' buf'
    let ?i2 = "i1\<lparr>memory := (memory i1)\<lparr>buffer := buf'\<rparr>,
                   inputChannel := (inputChannel i1)\<lparr>vs_instance := Some (ident, ch')\<rparr>\<rparr>"
    assume w: "onInput (writeScalar e1 v1) i1 = (Some r1, ?i2)" "inst_ok ?i2"
    have b2: "vs_buffer (inputChannel ?i2) = Some (buffer_id (memory ?i2))"
      by (simp add: g1(3,4))
    have c2: "vs_instance (inputChannel ?i2) = Some (ident, ch')" by simp
    have p2: "inputPtr ?i2 = inputPtr i" "inputChannelSize ?i2 = inputChannelSize i"
      by (simp_all add: g1(5,6))
    show thesis
    proof (rule getInput_result[OF w(2)])
      fix id2 i3
      assume g2: "getInput ?i2 = (Inr id2, i3)"
        "vs_instance (inputChannel i3) = Some (id2,
          \<lparr>offset = Num 0, byteOffset = nat (inputPtr ?i2), sizeInBytes = nat (inputChannelSize ?i2)\<rparr>)"
        "memory i3 = memory ?i2" "inputPtr i3 = inputPtr ?i2" "inputChannelSize i3 = inputChannelSize ?i2"
        "inst_ok i3"
        and same: "\<And>n ch. vs_buffer (inputChannel ?i2) = Some (buffer_id (memory ?i2)) \<Longrightarrow>
          vs_instance (inputChannel ?i2) = Some (n, ch) \<Longrightarrow> id2 = n"
      have s: "id2 = ident" by (rule same[OF b2 c2])
      show thesis
      proof (rule that[OF g1(1) w(1)])
        show "getInput ?i2 = (Inr ident, i3)" using g2(1) unfolding s .
        show "inputCursor i3 = Some (Num 0)" unfolding inputCursor_def g2(2) by simp
        show "memory i3 = memory ?i2" by (rule g2(3))
        show "inst_ok i3" by (rule g2(6))
        show "inputPtr i3 = inputPtr i" unfolding g2(4) by (rule p2(1))
        show "inputChannelSize i3 = inputChannelSize i" unfolding g2(5) by (rule p2(2))
        show "vs_instance (inputChannel i3) = Some (ident,
          \<lparr>offset = Num 0, byteOffset = nat (inputPtr i), sizeInBytes = nat (inputChannelSize i)\<rparr>)"
          using g2(2) unfolding s p2 .
      qed
    qed
  qed
qed

section \<open>The claims about the conduit\<close>

text \<open>
  C2. For every sequence of reads and writes on a channel (of a size that an \<open>i32\<close> can
  express), the state it leaves obeys the alignment rule: a 1-byte operation uses the raw
  cursor and advances it by 1; a 4-byte operation first rounds the cursor up to the next
  multiple of 4, stores or loads there, and advances by 4; an 8-byte operation does the
  same with 8. \<open>aligned e c\<close> is the least multiple of the width at or above \<open>c\<close>. An
  operation that does not fit leaves the cursor at the alignment boundary. The witness
  writes one byte and then a 4-byte value: the value lands at bytes 4 to 7.
\<close>

theorem alignment_rule:
  assumes "Channel buf0 offs sz = Inr ch0" and "sz < 2 ^ 31"
    and "run ops (ch0, buf0) = (ch, buf)"
  shows "\<exists>c. offset ch = Num c \<and> 0 \<le> c \<and> c \<le> sz
     \<and> aligned Uint8 c = c
     \<and> (\<forall>e. c \<le> aligned e c \<and> aligned e c < c + int (BYTES_PER_ELEMENT e)
            \<and> aligned e c mod int (BYTES_PER_ELEMENT e) = 0)
     \<and> (\<forall>e v. writeScalar e v ch buf =
           (if aligned e c + int (BYTES_PER_ELEMENT e) > sz
            then (Inl ReachedEndOfChannel, ch\<lparr>offset := Num (aligned e c)\<rparr>, buf)
            else (Inr (), ch\<lparr>offset := Num (aligned e c + int (BYTES_PER_ELEMENT e))\<rparr>,
                  buf\<lparr>contents := store_le (BYTES_PER_ELEMENT e) (nat offs + nat (aligned e c))
                         (toElement e v) (contents buf)\<rparr>)))
     \<and> (\<forall>e. readScalar e ch buf =
           (if aligned e c + int (BYTES_PER_ELEMENT e) > sz
            then (Inl ReachedEndOfChannel, ch\<lparr>offset := Num (aligned e c)\<rparr>)
            else (Inr (Some (fromElement e (load_le (BYTES_PER_ELEMENT e)
                          (nat offs + nat (aligned e c)) (contents buf)))),
                  ch\<lparr>offset := Num (aligned e c + int (BYTES_PER_ELEMENT e))\<rparr>)))"
proof -
  note c0 = Channel_ok[OF assms(1,2)]
  from run_ok[OF c0(1) assms(3)] c0
  have ok: "channel_ok ch" and geo: "byteOffset ch = nat offs" "int (sizeInBytes ch) = sz" by simp_all
  obtain c where c: "offset ch = Num c" using channel_ok_cursor[OF ok] by blast
  note d = channel_okD[OF ok c]
  show ?thesis
    using c d(1,2) geo aligned_bounds[where c=c] writeScalar_eq[OF ok c] readScalar_eq[OF ok c]
    by (intro exI[of _ c]) simp
qed

theorem alignment_rule_witness:
  "\<exists>ch0 ch buf.
      Channel (ArrayBuffer 16) 0 16 = Inr ch0
    \<and> run [WriteScalar Uint8 7] (ch0, ArrayBuffer 16) = (ch, buf)
    \<and> offset ch = Num 1 \<and> contents buf 0 = 7
    \<and> writeScalar Uint32 9 ch buf =
        (Inr (), ch\<lparr>offset := Num 8\<rparr>,
         buf\<lparr>contents := store_le 4 4 (toElement Uint32 9) (contents buf)\<rparr>)"
proof -
  let ?ch0 = "\<lparr>offset = Num 0, byteOffset = 0, sizeInBytes = 16\<rparr>"
  have ch0: "Channel (ArrayBuffer 16) 0 16 = Inr ?ch0"
    by (simp add: Channel_def ArrayBuffer_def)
  have ok0: "channel_ok ?ch0" by (simp add: channel_ok_def)
  obtain ch buf where r: "run [WriteScalar Uint8 7] (?ch0, ArrayBuffer 16) = (ch, buf)"
    by (metis surj_pair)
  from r have ch: "ch = ?ch0\<lparr>offset := Num 1\<rparr>" and b0: "contents buf 0 = 7"
    by (auto simp: writeScalar_eq[OF ok0] ArrayBuffer_def)
  from alignment_rule[OF ch0 _ r] obtain c where
    c: "offset ch = Num c"
    and w: "writeScalar Uint32 9 ch buf =
           (if aligned Uint32 c + int (BYTES_PER_ELEMENT Uint32) > 16
            then (Inl ReachedEndOfChannel, ch\<lparr>offset := Num (aligned Uint32 c)\<rparr>, buf)
            else (Inr (), ch\<lparr>offset := Num (aligned Uint32 c + int (BYTES_PER_ELEMENT Uint32))\<rparr>,
                  buf\<lparr>contents := store_le (BYTES_PER_ELEMENT Uint32) (nat 0 + nat (aligned Uint32 c))
                         (toElement Uint32 9) (contents buf)\<rparr>))"
    by auto
  from c ch have "c = 1" by simp
  with w ch0 r ch b0 show ?thesis
    by (simp add: aligned_values)
qed

text \<open>
  C3. On a well-formed channel every operation raises the bounds error if and only if its
  aligned cursor plus its total width (\<open>extent\<close>) exceeds the capacity, and it raises
  nothing else. The error is a value: the call returns, the channel stays well-formed
  and usable. No operation, failing or not, changes a byte outside the channel's region
  or the length of the buffer.
\<close>

theorem bounds_error_iff:
  assumes "channel_ok ch" and "offset ch = Num c" and "perform x ch buf = (r, ch', buf')"
  shows "(r = Some ReachedEndOfChannel) = (extent x ch buf c > int (sizeInBytes ch))
     \<and> (r = None) = (extent x ch buf c \<le> int (sizeInBytes ch))
     \<and> channel_ok ch' \<and> byteOffset ch' = byteOffset ch \<and> sizeInBytes ch' = sizeInBytes ch
     \<and> byteLength buf' = byteLength buf
     \<and> (\<forall>a. a \<notin> region ch \<longrightarrow> contents buf' a = contents buf a)"
  using perform_facts[OF assms] by (simp split: if_splits)

theorem bounds_error_iff_witness:
  "channel_ok \<lparr>offset = Num 6, byteOffset = 8, sizeInBytes = 8\<rparr>
   \<and> extent (WriteScalar Uint32 9) \<lparr>offset = Num 6, byteOffset = 8, sizeInBytes = 8\<rparr> (ArrayBuffer 24) 6 = 12
   \<and> fst (perform (WriteScalar Uint32 9) \<lparr>offset = Num 6, byteOffset = 8, sizeInBytes = 8\<rparr> (ArrayBuffer 24))
        = Some ReachedEndOfChannel
   \<and> channel_ok (fst (snd (perform (WriteScalar Uint32 9)
          \<lparr>offset = Num 6, byteOffset = 8, sizeInBytes = 8\<rparr> (ArrayBuffer 24))))
   \<and> contents (snd (snd (perform (WriteScalar Uint32 9)
          \<lparr>offset = Num 6, byteOffset = 8, sizeInBytes = 8\<rparr> (ArrayBuffer 24)))) 16
        = contents (ArrayBuffer 24) 16
   \<and> fst (perform (WriteScalar Uint32 9) \<lparr>offset = Num 4, byteOffset = 8, sizeInBytes = 8\<rparr> (ArrayBuffer 24))
        = None"
proof -
  let ?ch = "\<lparr>offset = Num 6, byteOffset = 8, sizeInBytes = 8\<rparr>"
  let ?ch4 = "\<lparr>offset = Num 4, byteOffset = 8, sizeInBytes = 8\<rparr>"
  let ?x = "WriteScalar Uint32 9"
  have ok: "channel_ok ?ch" "channel_ok ?ch4" by (simp_all add: channel_ok_def)
  have p: "perform ?x k (ArrayBuffer 24) = (fst (perform ?x k (ArrayBuffer 24)),
      fst (snd (perform ?x k (ArrayBuffer 24))), snd (snd (perform ?x k (ArrayBuffer 24))))" for k
    by simp
  have out: "16 \<notin> region ?ch" by (simp add: region_def)
  from bounds_error_iff[OF ok(1) _ p[of ?ch], of 6] bounds_error_iff[OF ok(2) _ p[of ?ch4], of 4] ok out
  show ?thesis by (simp add: aligned_values del: perform.simps)
qed

text \<open>
  C10 (as stated, fails): \<open>copyUint8Array\<close> of five bytes on an 8-byte channel stores its
  length prefix (byte 0 becomes 5) and then raises the bounds error for the elements.
\<close>

theorem copyArray_failure_leaves_prefix:
  "fst (copyArray Uint8 [1, 2, 3, 4, 5] \<lparr>offset = Num 0, byteOffset = 0, sizeInBytes = 8\<rparr> (ArrayBuffer 8))
     = Inl ReachedEndOfChannel
   \<and> contents (snd (snd (copyArray Uint8 [1, 2, 3, 4, 5]
         \<lparr>offset = Num 0, byteOffset = 0, sizeInBytes = 8\<rparr> (ArrayBuffer 8)))) 0 = 5
   \<and> contents (ArrayBuffer 8) 0 = 0"
proof -
  let ?ch = "\<lparr>offset = Num 0, byteOffset = 0, sizeInBytes = 8\<rparr>"
  let ?ch1 = "\<lparr>offset = Num 4, byteOffset = 0, sizeInBytes = 8\<rparr>"
  define b1 where "b1 = (ArrayBuffer 8)\<lparr>contents := store_le 4 0 (toElement Uint32 5) (contents (ArrayBuffer 8))\<rparr>"
  have ok: "channel_ok ?ch" "channel_ok ?ch1" by (simp_all add: channel_ok_def)
  have w: "writeUint32 5 ?ch (ArrayBuffer 8) = (Inr (), ?ch1, b1)"
    using writeScalar_eq[OF ok(1), of 0 Uint32 5 "ArrayBuffer 8"]
    by (simp add: writeUint32_def aligned_values b1_def)
  have c: "copyElements Uint8 [1, 2, 3, 4, 5] ?ch1 b1 = (Inl ReachedEndOfChannel, ?ch1, b1)"
    by (simp only: copyElements_eq[OF ok(2), of 4 Uint8 "[1, 2, 3, 4, 5]" b1, simplified] if_True)
  have r: "copyArray Uint8 [1, 2, 3, 4, 5] ?ch (ArrayBuffer 8) = (Inl ReachedEndOfChannel, ?ch1, b1)"
    by (simp add: copyArray_def w c)
  have "contents b1 0 = 5"
    by (simp add: b1_def store_le_4_first)
  moreover have "contents (ArrayBuffer 8) 0 = 0"
    by (simp add: ArrayBuffer_def)
  ultimately show ?thesis
    by (simp only: r fst_conv snd_conv simp_thms)
qed

text \<open>
  C10 (amended): a Writer method that makes one reservation or one store (scalar write,
  init, init elements, copy elements) and raises the bounds error has not changed the
  buffer; its cursor is where the alignment step put it. An array method (init array,
  copy array) that raises the bounds error has either changed nothing or stored exactly
  its length prefix: the buffer is the one \<open>writeUint32(length)\<close> leaves.
\<close>

theorem failed_write_stores_nothing:
  assumes "perform x ch buf = (Some ReachedEndOfChannel, ch', buf')"
  shows "(primitive x \<longrightarrow> buf' = buf \<and> ch' = snd (offsetOf (elemOf x) ch))
     \<and> (\<forall>e n. x = InitArray e n \<longrightarrow>
            buf' = buf \<or> buf' = snd (snd (writeUint32 (int n) ch buf)))
     \<and> (\<forall>e arr. x = CopyArray e arr \<longrightarrow>
            buf' = buf \<or> buf' = snd (snd (writeUint32 (int (length arr)) ch buf)))"
  using failed_primitive[OF _ assms] failed_InitArray failed_CopyArray assms
  by blast

theorem failed_write_stores_nothing_witness:
  "perform (WriteScalar Uint32 9) \<lparr>offset = Num 6, byteOffset = 8, sizeInBytes = 8\<rparr> (ArrayBuffer 24)
     = (Some ReachedEndOfChannel, \<lparr>offset = Num 8, byteOffset = 8, sizeInBytes = 8\<rparr>, ArrayBuffer 24)
   \<and> snd (offsetOf Uint32 \<lparr>offset = Num 6, byteOffset = 8, sizeInBytes = 8\<rparr>)
     = \<lparr>offset = Num 8, byteOffset = 8, sizeInBytes = 8\<rparr>"
proof -
  let ?ch = "\<lparr>offset = Num 6, byteOffset = 8, sizeInBytes = 8\<rparr>"
  have ok: "channel_ok ?ch" by (simp add: channel_ok_def)
  have p: "perform (WriteScalar Uint32 9) ?ch (ArrayBuffer 24)
     = (Some ReachedEndOfChannel, \<lparr>offset = Num 8, byteOffset = 8, sizeInBytes = 8\<rparr>, ArrayBuffer 24)"
    by (simp add: writeScalar_eq[OF ok] aligned_values)
  from failed_write_stores_nothing[OF p] p show ?thesis by simp
qed






section \<open>The claims about the instance bootstrap\<close>




text \<open>
  C9 (as stated, fails): a caller-supplied \<open>env.memory\<close> (or \<open>env.hostLog\<close>) does not reach
  the module: the host's memory and hook are written after the caller's entries and
  replace them.
\<close>

theorem caller_env_memory_is_replaced:
  "binding (Map.empty(''env'' \<mapsto> Map.empty(''memory'' \<mapsto> (1::nat), ''foo'' \<mapsto> 5))) ''env'' ''memory'' = Some 1
   \<and> binding (finalImports (Some (Map.empty(''env'' \<mapsto> Map.empty(''memory'' \<mapsto> (1::nat), ''foo'' \<mapsto> 5)))) 0 2)
        ''env'' ''memory'' = Some 0"
  by (simp add: binding_def finalImports_def)

text \<open>
  C9 (amended): every namespace of the caller's imports other than \<open>env\<close> is passed on
  unchanged; every entry of the caller's \<open>env\<close> other than \<open>memory\<close> and \<open>hostLog\<close> is
  present unchanged in the final \<open>env\<close>; \<open>env.memory\<close> and \<open>env.hostLog\<close> are always
  the host's memory and notification hook.
\<close>

theorem imports_merged:
  "(\<forall>ns. ns \<noteq> ''env'' \<longrightarrow>
      finalImports imports mem hook ns = (case imports of None \<Rightarrow> None | Some i \<Rightarrow> i ns))
   \<and> (\<forall>key. key \<noteq> ''memory'' \<and> key \<noteq> ''hostLog'' \<longrightarrow>
      binding (finalImports imports mem hook) ''env'' key
        = (case imports of None \<Rightarrow> None | Some i \<Rightarrow> binding i ''env'' key))
   \<and> binding (finalImports imports mem hook) ''env'' ''memory'' = Some mem
   \<and> binding (finalImports imports mem hook) ''env'' ''hostLog'' = Some hook"
  by (auto simp: finalImports_def binding_def Let_def split: option.splits)

theorem imports_merged_witness:
  "finalImports (Some (Map.empty(''wasi_snapshot_preview1'' \<mapsto> Map.empty(''fd_write'' \<mapsto> (7::nat)),
                                 ''env'' \<mapsto> Map.empty(''foo'' \<mapsto> 1)))) 0 2 ''wasi_snapshot_preview1''
     = Some (Map.empty(''fd_write'' \<mapsto> 7))
   \<and> binding (finalImports (Some (Map.empty(''wasi_snapshot_preview1'' \<mapsto> Map.empty(''fd_write'' \<mapsto> (7::nat)),
                                 ''env'' \<mapsto> Map.empty(''foo'' \<mapsto> 1)))) 0 2) ''env'' ''foo'' = Some 1
   \<and> binding (finalImports (Some (Map.empty(''wasi_snapshot_preview1'' \<mapsto> Map.empty(''fd_write'' \<mapsto> (7::nat)),
                                 ''env'' \<mapsto> Map.empty(''foo'' \<mapsto> 1)))) 0 2) ''env'' ''memory'' = Some 0"
proof -
  let ?i = "Map.empty(''wasi_snapshot_preview1'' \<mapsto> Map.empty(''fd_write'' \<mapsto> (7::nat)),
                      ''env'' \<mapsto> Map.empty(''foo'' \<mapsto> 1))"
  from imports_merged[of "Some ?i" 0 2]
  have a: "\<forall>ns. ns \<noteq> ''env'' \<longrightarrow> finalImports (Some ?i) 0 2 ns = ?i ns"
    and b: "\<forall>key. key \<noteq> ''memory'' \<and> key \<noteq> ''hostLog'' \<longrightarrow>
              binding (finalImports (Some ?i) 0 2) ''env'' key = binding ?i ''env'' key"
    and c: "binding (finalImports (Some ?i) 0 2) ''env'' ''memory'' = Some 0"
    by simp_all
  from a have "finalImports (Some ?i) 0 2 ''wasi_snapshot_preview1'' = ?i ''wasi_snapshot_preview1''"
    by (elim allE[of _ "''wasi_snapshot_preview1''"]) simp
  moreover from b have "binding (finalImports (Some ?i) 0 2) ''env'' ''foo'' = binding ?i ''env'' ''foo''"
    by (elim allE[of _ "''foo''"]) simp
  ultimately show ?thesis using c by (simp add: binding_def)
qed

text \<open>
  C7. Retrieval resets the cursor. On an instance whose channels can be built,
  \<open>getInput\<close> and \<open>getOutput\<close> return a channel (they do not throw), the cached channel has
  cursor 0 afterwards, and the memory is untouched. Retrieving the input channel, writing
  a scalar, and retrieving it again gives the same Writer object with cursor 0; a second
  scalar that fits the channel is then stored at the start of the channel region, whatever
  the first one was, and every byte of the memory outside the second scalar's extent is
  as the first write left it.
\<close>

theorem retrieval_resets:
  assumes "inst_ok i"
  shows "(\<exists>ident i1. getInput i = (Inr ident, i1) \<and> inputCursor i1 = Some (Num 0)
            \<and> memory i1 = memory i \<and> inst_ok i1)
       \<and> (\<exists>ident i1. getOutput i = (Inr ident, i1) \<and> outputCursor i1 = Some (Num 0)
            \<and> memory i1 = memory i \<and> inst_ok i1)
       \<and> (\<exists>ident i1 r1 i2 i3.
            getInput i = (Inr ident, i1) \<and> onInput (writeScalar e1 v1) i1 = (Some r1, i2)
            \<and> getInput i2 = (Inr ident, i3) \<and> inputCursor i3 = Some (Num 0) \<and> memory i3 = memory i2
            \<and> (int (BYTES_PER_ELEMENT e2) \<le> inputChannelSize i \<longrightarrow>
                 (\<exists>i4. onInput (writeScalar e2 v2) i3 = (Some (Inr ()), i4)
                    \<and> inputCursor i4 = Some (Num (int (BYTES_PER_ELEMENT e2)))
                    \<and> load_le (BYTES_PER_ELEMENT e2) (nat (inputPtr i)) (contents (buffer (memory i4)))
                        = toElement e2 v2
                    \<and> (\<forall>a. a < nat (inputPtr i) \<or> nat (inputPtr i) + BYTES_PER_ELEMENT e2 \<le> a \<longrightarrow>
                          getByte i4 a = getByte i2 a))))"
proof (intro conjI)
  show "\<exists>ident i1. getInput i = (Inr ident, i1) \<and> inputCursor i1 = Some (Num 0)
            \<and> memory i1 = memory i \<and> inst_ok i1"
  proof (rule getInput_result[OF assms])
    fix ident i1
    assume g: "getInput i = (Inr ident, i1)"
      "vs_instance (inputChannel i1) = Some (ident,
        \<lparr>offset = Num 0, byteOffset = nat (inputPtr i), sizeInBytes = nat (inputChannelSize i)\<rparr>)"
      "memory i1 = memory i" "inst_ok i1"
    have "inputCursor i1 = Some (Num 0)" unfolding inputCursor_def g(2) by simp
    with g(1,3,4) show ?thesis by (intro exI conjI)
  qed
next
  show "\<exists>ident i1. getOutput i = (Inr ident, i1) \<and> outputCursor i1 = Some (Num 0)
            \<and> memory i1 = memory i \<and> inst_ok i1"
  proof (rule getOutput_result[OF assms])
    fix ident i1
    assume g: "getOutput i = (Inr ident, i1)"
      "vs_instance (outputChannel i1) = Some (ident,
        \<lparr>offset = Num 0, byteOffset = nat (outputPtr i), sizeInBytes = nat (outputChannelSize i)\<rparr>)"
      "memory i1 = memory i" "inst_ok i1"
    have "outputCursor i1 = Some (Num 0)" unfolding outputCursor_def g(2) by simp
    with g(1,3,4) show ?thesis by (intro exI conjI)
  qed
next
  show "\<exists>ident i1 r1 i2 i3.
            getInput i = (Inr ident, i1) \<and> onInput (writeScalar e1 v1) i1 = (Some r1, i2)
            \<and> getInput i2 = (Inr ident, i3) \<and> inputCursor i3 = Some (Num 0) \<and> memory i3 = memory i2
            \<and> (int (BYTES_PER_ELEMENT e2) \<le> inputChannelSize i \<longrightarrow>
                 (\<exists>i4. onInput (writeScalar e2 v2) i3 = (Some (Inr ()), i4)
                    \<and> inputCursor i4 = Some (Num (int (BYTES_PER_ELEMENT e2)))
                    \<and> load_le (BYTES_PER_ELEMENT e2) (nat (inputPtr i)) (contents (buffer (memory i4)))
                        = toElement e2 v2
                    \<and> (\<forall>a. a < nat (inputPtr i) \<or> nat (inputPtr i) + BYTES_PER_ELEMENT e2 \<le> a \<longrightarrow>
                          getByte i4 a = getByte i2 a)))"
  proof (rule retrieve_write_retrieve[OF assms, of e1 v1])
    fix ident i1 r1 i2 i3
    assume g: "getInput i = (Inr ident, i1)" "onInput (writeScalar e1 v1) i1 = (Some r1, i2)"
      "getInput i2 = (Inr ident, i3)" "inputCursor i3 = Some (Num 0)" "memory i3 = memory i2"
      and ok3: "inst_ok i3" and geo: "inputPtr i3 = inputPtr i" "inputChannelSize i3 = inputChannelSize i"
      and c3: "vs_instance (inputChannel i3) = Some (ident,
        \<lparr>offset = Num 0, byteOffset = nat (inputPtr i), sizeInBytes = nat (inputChannelSize i)\<rparr>)"
    have second: "int (BYTES_PER_ELEMENT e2) \<le> inputChannelSize i \<longrightarrow>
                 (\<exists>i4. onInput (writeScalar e2 v2) i3 = (Some (Inr ()), i4)
                    \<and> inputCursor i4 = Some (Num (int (BYTES_PER_ELEMENT e2)))
                    \<and> load_le (BYTES_PER_ELEMENT e2) (nat (inputPtr i)) (contents (buffer (memory i4)))
                        = toElement e2 v2
                    \<and> (\<forall>a. a < nat (inputPtr i) \<or> nat (inputPtr i) + BYTES_PER_ELEMENT e2 \<le> a \<longrightarrow>
                          getByte i4 a = getByte i2 a))"
    proof (rule impI)
      assume fits: "int (BYTES_PER_ELEMENT e2) \<le> inputChannelSize i"
      have c3': "vs_instance (inputChannel i3) = Some (ident,
          \<lparr>offset = Num 0, byteOffset = nat (inputPtr i3), sizeInBytes = nat (inputChannelSize i3)\<rparr>)"
        unfolding geo by (rule c3)
      have f3: "int (BYTES_PER_ELEMENT e2) \<le> inputChannelSize i3" unfolding geo by (rule fits)
      show "\<exists>i4. onInput (writeScalar e2 v2) i3 = (Some (Inr ()), i4)
                    \<and> inputCursor i4 = Some (Num (int (BYTES_PER_ELEMENT e2)))
                    \<and> load_le (BYTES_PER_ELEMENT e2) (nat (inputPtr i)) (contents (buffer (memory i4)))
                        = toElement e2 v2
                    \<and> (\<forall>a. a < nat (inputPtr i) \<or> nat (inputPtr i) + BYTES_PER_ELEMENT e2 \<le> a \<longrightarrow>
                          getByte i4 a = getByte i2 a)"
      proof (rule write_after_retrieval[OF ok3 c3' f3, of v2])
        fix i4
        assume w: "onInput (writeScalar e2 v2) i3 = (Some (Inr ()), i4)"
          "inputCursor i4 = Some (Num (int (BYTES_PER_ELEMENT e2)))"
          "load_le (BYTES_PER_ELEMENT e2) (nat (inputPtr i3)) (contents (buffer (memory i4))) = toElement e2 v2"
          and rest: "\<And>a. a < nat (inputPtr i3) \<or> nat (inputPtr i3) + BYTES_PER_ELEMENT e2 \<le> a
                 \<Longrightarrow> getByte i4 a = getByte i3 a"
        have same: "getByte i3 a = getByte i2 a" for a unfolding getByte_def g(5) ..
        have l: "load_le (BYTES_PER_ELEMENT e2) (nat (inputPtr i)) (contents (buffer (memory i4))) = toElement e2 v2"
          using w(3) unfolding geo .
        have r: "\<forall>a. a < nat (inputPtr i) \<or> nat (inputPtr i) + BYTES_PER_ELEMENT e2 \<le> a \<longrightarrow>
                          getByte i4 a = getByte i2 a"
        proof (intro allI impI)
          fix a assume "a < nat (inputPtr i) \<or> nat (inputPtr i) + BYTES_PER_ELEMENT e2 \<le> a"
          then have "getByte i4 a = getByte i3 a" using rest[of a] unfolding geo by simp
          then show "getByte i4 a = getByte i2 a" unfolding same .
        qed
        from w(1,2) l r show ?thesis by (intro exI conjI)
      qed
    qed
    from g second show ?thesis by (intro exI conjI)
  qed
qed

theorem retrieval_resets_witness:
  "inst_ok \<lparr>memory = Memory 1, inputPtr = 512, inputChannelSize = 64, outputPtr = 1024,
            outputChannelSize = 64, inputChannel = createView, outputChannel = createView\<rparr>
   \<and> (\<exists>ident i1 r1 i2 i3 i4.
        getInput \<lparr>memory = Memory 1, inputPtr = 512, inputChannelSize = 64, outputPtr = 1024,
            outputChannelSize = 64, inputChannel = createView, outputChannel = createView\<rparr> = (Inr ident, i1)
        \<and> onInput (writeScalar Uint8 7) i1 = (Some r1, i2)
        \<and> getInput i2 = (Inr ident, i3) \<and> inputCursor i3 = Some (Num 0)
        \<and> onInput (writeScalar Uint8 9) i3 = (Some (Inr ()), i4)
        \<and> load_le 1 512 (contents (buffer (memory i4))) = 9)"
proof -
  let ?i = "\<lparr>memory = Memory 1, inputPtr = 512, inputChannelSize = 64, outputPtr = 1024,
            outputChannelSize = 64, inputChannel = createView, outputChannel = createView\<rparr>"
  have ok: "inst_ok ?i"
    by (simp add: inst_ok_def region_ok_def view_ok_def createView_def Memory_def ArrayBuffer_def
        wasm_page_size_def)
  from retrieval_resets[OF ok, of Uint8 7 Uint8 9] have
    "\<exists>ident i1 r1 i2 i3.
            getInput ?i = (Inr ident, i1) \<and> onInput (writeScalar Uint8 7) i1 = (Some r1, i2)
            \<and> getInput i2 = (Inr ident, i3) \<and> inputCursor i3 = Some (Num 0) \<and> memory i3 = memory i2
            \<and> (\<exists>i4. onInput (writeScalar Uint8 9) i3 = (Some (Inr ()), i4)
                    \<and> inputCursor i4 = Some (Num 1)
                    \<and> load_le 1 512 (contents (buffer (memory i4))) = 9
                    \<and> (\<forall>a. a < 512 \<or> 513 \<le> a \<longrightarrow> getByte i4 a = getByte i2 a))"
    by simp
  then have "\<exists>ident i1 r1 i2 i3 i4.
        getInput ?i = (Inr ident, i1)
        \<and> onInput (writeScalar Uint8 7) i1 = (Some r1, i2)
        \<and> getInput i2 = (Inr ident, i3) \<and> inputCursor i3 = Some (Num 0)
        \<and> onInput (writeScalar Uint8 9) i3 = (Some (Inr ()), i4)
        \<and> load_le 1 512 (contents (buffer (memory i4))) = 9"
    by blast
  with ok show ?thesis by (rule conjI)
qed

end
